theory Spec2Isabelle
  imports Main "HOL-Library.Sublist" "HOL-Library.Log_Nat"
begin

section \<open>JavaScript values\<close>

subsection \<open>Strings\<close>

text \<open>
  A string is the list of its UTF-16 code units. A \<open>char\<close> is a code unit below 256
  (\<open>CHR 0xC9\<close> is U+00C9, the letter E with acute), so the strings modelled are those of
  Basic Latin and the Latin-1 Supplement. \<open>String.prototype.toLowerCase\<close> applies the
  default case conversion of Unicode, which does not depend on the locale. On these code
  units it maps \<open>A..Z\<close> (65..90) and the capital letters U+00C0..U+00DE (192..222), the
  multiplication sign U+00D7 (215) excepted, to the code unit 32 above, and leaves every
  other code unit as it is; none of them has a special or context-dependent mapping, and
  the length of the string is kept. \<open>s.includes(p)\<close> is contiguous containment. An
  optional string is truthy when it is present and not empty.
\<close>

definition lowerChar :: "char \<Rightarrow> char" where
  "lowerChar c =
     (let n = (of_char c :: nat)
      in if (65 \<le> n \<and> n \<le> 90) \<or> (192 \<le> n \<and> n \<le> 222 \<and> n \<noteq> 215)
         then char_of (n + 32) else c)"

definition toLowerCase :: "string \<Rightarrow> string" where
  "toLowerCase s = map lowerChar s"

definition str_includes :: "string \<Rightarrow> string \<Rightarrow> bool" where
  "str_includes s p = sublist p s"

definition startsWith :: "string \<Rightarrow> string \<Rightarrow> bool" where
  "startsWith s p = prefix p s"

definition truthyStr :: "string option \<Rightarrow> bool" where
  "truthyStr x = (case x of None \<Rightarrow> False | Some s \<Rightarrow> s \<noteq> [])"

fun digitsOf :: "nat \<Rightarrow> string" where
  "digitsOf n =
     (if n < 10 then [char_of (48 + n)] else digitsOf (n div 10) @ [char_of (48 + n mod 10)])"

declare digitsOf.simps [simp del]

subsection \<open>Containment that ignores case, as the specification words it\<close>





subsection \<open>Numbers\<close>

text \<open>
  Counters, indices and millisecond clocks are integers far below \<open>2^53\<close>, where the
  arithmetic of JavaScript numbers is exact: they are \<open>nat\<close> or \<open>int\<close>. Costs and
  durations in seconds are IEEE-754 binary64 values. A finite double is the rational it
  denotes; \<open>fl\<close> rounds a rational to the nearest number with a 53-bit significand, ties
  to the even significand. The exponent range is not bounded (no overflow to Infinity,
  no subnormals), and NaN and the sign of zero are left out. A decimal literal of the
  source denotes the double nearest to it: \<open>0.9\<close> is \<open>fl (9/10)\<close>.

  \<open>a || d\<close> on an optional number takes \<open>d\<close> when \<open>a\<close> is absent or zero;
  \<open>a ?? d\<close> takes \<open>d\<close> only when \<open>a\<close> is absent.
\<close>

type_synonym number = rat

definition pow2 :: "int \<Rightarrow> rat" where
  "pow2 e = (if 0 \<le> e then 2 ^ nat e else 1 / 2 ^ nat (- e))"

definition binade :: "rat \<Rightarrow> int" where
  "binade x =
     (let (p, q) = quotient_of \<bar>x\<bar>; e0 = bitlen p - bitlen q
      in if pow2 e0 \<le> \<bar>x\<bar> then e0 else e0 - 1)"

definition roundHalfEven :: "rat \<Rightarrow> int" where
  "roundHalfEven r =
     (let f = \<lfloor>r\<rfloor>; d = r - of_int f
      in if d < 1 / 2 then f else if 1 / 2 < d then f + 1 else if even f then f else f + 1)"

definition fl :: "rat \<Rightarrow> number" where
  "fl x =
     (if x = 0 then 0
      else let u = pow2 (binade x - 52) in of_int (roundHalfEven (x / u)) * u)"

definition fmul :: "number \<Rightarrow> number \<Rightarrow> number" where
  "fmul a b = fl (a * b)"

definition fadd :: "number \<Rightarrow> number \<Rightarrow> number" where
  "fadd a b = fl (a + b)"

definition jsOr :: "'a::zero option \<Rightarrow> 'a \<Rightarrow> 'a" where
  "jsOr a d = (case a of None \<Rightarrow> d | Some v \<Rightarrow> if v = 0 then d else v)"

definition nullish :: "'a option \<Rightarrow> 'a \<Rightarrow> 'a" where
  "nullish a d = (case a of None \<Rightarrow> d | Some v \<Rightarrow> v)"

definition strOr :: "string option \<Rightarrow> string \<Rightarrow> string" where
  "strOr a d = (if truthyStr a then the a else d)"

section \<open>types/tools.ts\<close>

datatype Model = Sora2 | Sora2Pro

datatype Size = S1920x1080 | S1280x720 | S1080x1920 | S720x1280 | S1080x1080 | S480x480

fun sizeString :: "Size \<Rightarrow> string" where
  "sizeString S1920x1080 = ''1920x1080''"
| "sizeString S1280x720 = ''1280x720''"
| "sizeString S1080x1920 = ''1080x1920''"
| "sizeString S720x1280 = ''720x1280''"
| "sizeString S1080x1080 = ''1080x1080''"
| "sizeString S480x480 = ''480x480''"

definition DEFAULT_MODEL :: Model where
  "DEFAULT_MODEL = Sora2"

definition DEFAULT_SIZE :: Size where
  "DEFAULT_SIZE = S1280x720"

definition DEFAULT_SECONDS :: number where
  "DEFAULT_SECONDS = 4"

record Pricing =
  price720p :: number
  price1024p :: "number option"
  priceDefault :: number

fun PRICING :: "Model \<Rightarrow> Pricing" where
  "PRICING Sora2 =
     \<lparr>price720p = fl (1 / 10), price1024p = None, priceDefault = fl (1 / 10)\<rparr>"
| "PRICING Sora2Pro =
     \<lparr>price720p = fl (3 / 10), price1024p = Some (fl (5 / 10)), priceDefault = fl (3 / 10)\<rparr>"

definition pricePerSecond :: "Model \<Rightarrow> Size \<Rightarrow> number" where
  "pricePerSecond model sz =
     (let pricing = PRICING model;
          is720p = (str_includes (sizeString sz) ''720'' \<or> str_includes (sizeString sz) ''480'')
      in if is720p then price720p pricing
         else jsOr (price1024p pricing) (priceDefault pricing))"

definition calculateCost :: "Model \<Rightarrow> number \<Rightarrow> Size \<Rightarrow> number" where
  "calculateCost model secs sz = fmul (pricePerSecond model sz) secs"

record VideoGenerationResult =
  vid_success :: bool
  vid_video_id :: "string option"
  vid_video_url :: "string option"
  vid_output_path :: "string option"
  vid_duration :: "number option"
  vid_error :: "string option"

section \<open>types/batch.ts\<close>

record BatchJobConfig =
  job_prompt :: string
  job_output_path :: "string option"
  job_model :: "Model option"
  job_size :: "Size option"
  job_seconds :: "number option"
  job_input_reference :: "string option"
  job_remix_video_id :: "string option"

record RetryPolicy =
  max_retries :: "int option"
  retry_delay_ms :: "nat option"
  retry_on_errors :: "string list option"

record BatchConfig =
  jobs :: "BatchJobConfig list"
  output_dir :: "string option"
  max_concurrent :: "int option"
  timeout :: "int option"
  poll_interval :: "int option"
  max_poll_attempts :: "int option"
  retry_policy :: "RetryPolicy option"
  default_model :: "Model option"
  default_size :: "Size option"
  default_seconds :: "number option"

record BatchExecutionOptions =
  allowAnyPath :: "bool option"

datatype JobStatus = Completed | Failed | Cancelled

record BatchJobResult =
  res_index :: nat
  res_prompt :: string
  res_status :: JobStatus
  res_output_path :: "string option"
  res_video_url :: "string option"
  res_video_id :: "string option"
  res_error :: "string option"
  res_duration_ms :: "nat option"
  res_video_duration :: "number option"
  res_is_remix :: "bool option"
  res_is_image_to_video :: "bool option"

record BatchResult =
  total :: nat
  succeeded :: nat
  failed :: nat
  cancelled :: nat
  results :: "BatchJobResult list"
  started_at :: nat
  finished_at :: nat
  total_duration_ms :: nat
  estimated_cost :: number

datatype JobKind = text_to_video | image_to_video | remix

record CostBreakdownItem =
  item_type :: JobKind
  item_count :: nat
  item_estimated_cost :: number

record CostEstimate =
  total_jobs :: nat
  estimated_min :: number
  estimated_max :: number
  breakdown :: "CostBreakdownItem list"

definition BATCH_DEFAULTS_max_concurrent :: int where
  "BATCH_DEFAULTS_max_concurrent = 2"

definition BATCH_DEFAULTS_timeout :: int where
  "BATCH_DEFAULTS_timeout = 1800000"

definition BATCH_DEFAULTS_retry_max_retries :: int where
  "BATCH_DEFAULTS_retry_max_retries = 2"

definition BATCH_DEFAULTS_retry_delay_ms :: nat where
  "BATCH_DEFAULTS_retry_delay_ms = 1000"

definition BATCH_DEFAULTS_retry_on_errors :: "string list" where
  "BATCH_DEFAULTS_retry_on_errors = [''rate_limit'', ''timeout'', ''429'', ''503'', ''500'']"

section \<open>utils/batch-manager.ts: the cost estimator\<close>

text \<open>
  \<open>BatchManager\<close> is a class whose only field is the API key; a method takes the
  receiver as its first argument. The effective parameters of a job are the job's own,
  else the batch default, else the global default (\<open>a || b || c\<close>: a model and a size are
  non-empty strings, hence truthy when present; a duration of zero is falsy).
\<close>

record BatchManager =
  apiKey :: string

definition effModel :: "BatchConfig \<Rightarrow> BatchJobConfig \<Rightarrow> Model" where
  "effModel config job = nullish (job_model job) (nullish (default_model config) DEFAULT_MODEL)"

definition effSize :: "BatchConfig \<Rightarrow> BatchJobConfig \<Rightarrow> Size" where
  "effSize config job = nullish (job_size job) (nullish (default_size config) DEFAULT_SIZE)"

definition effSeconds :: "BatchConfig \<Rightarrow> BatchJobConfig \<Rightarrow> number" where
  "effSeconds config job =
     jsOr (job_seconds job) (jsOr (default_seconds config) DEFAULT_SECONDS)"

record CostAcc =
  textToVideoCount :: nat
  imageToVideoCount :: nat
  remixCount :: nat
  textToVideoCost :: number
  imageToVideoCost :: number
  remixCost :: number

definition costAcc0 :: CostAcc where
  "costAcc0 =
     \<lparr>textToVideoCount = 0, imageToVideoCount = 0, remixCount = 0,
      textToVideoCost = 0, imageToVideoCost = 0, remixCost = 0\<rparr>"

text \<open>The body of the loop \<open>for (const job of config.jobs)\<close>.\<close>

definition costStep :: "BatchConfig \<Rightarrow> CostAcc \<Rightarrow> BatchJobConfig \<Rightarrow> CostAcc" where
  "costStep config a job =
     (let cost = calculateCost (effModel config job) (effSeconds config job) (effSize config job)
      in if truthyStr (job_remix_video_id job)
         then a\<lparr>remixCount := remixCount a + 1, remixCost := fadd (remixCost a) cost\<rparr>
         else if truthyStr (job_input_reference job)
         then a\<lparr>imageToVideoCount := imageToVideoCount a + 1,
                 imageToVideoCost := fadd (imageToVideoCost a) cost\<rparr>
         else a\<lparr>textToVideoCount := textToVideoCount a + 1,
                 textToVideoCost := fadd (textToVideoCost a) cost\<rparr>)"

definition estimateBatchCost :: "BatchManager \<Rightarrow> BatchConfig \<Rightarrow> CostEstimate" where
  "estimateBatchCost this config =
     (let a = foldl (costStep config) costAcc0 (jobs config);
          breakdown =
            (if textToVideoCount a > 0
             then [\<lparr>item_type = text_to_video, item_count = textToVideoCount a,
                     item_estimated_cost = textToVideoCost a\<rparr>] else []) @
            (if imageToVideoCount a > 0
             then [\<lparr>item_type = image_to_video, item_count = imageToVideoCount a,
                     item_estimated_cost = imageToVideoCost a\<rparr>] else []) @
            (if remixCount a > 0
             then [\<lparr>item_type = remix, item_count = remixCount a,
                     item_estimated_cost = remixCost a\<rparr>] else []);
          totalEstimate = fadd (fadd (textToVideoCost a) (imageToVideoCost a)) (remixCost a)
      in \<lparr>total_jobs = length (jobs config),
          estimated_min = fmul totalEstimate (fl (9 / 10)),
          estimated_max = fmul totalEstimate (fl (12 / 10)),
          breakdown = breakdown\<rparr>)"

subsection \<open>The estimate in the words of the specification\<close>

text \<open>
  The specification describes the estimate per job: the nominal cost of a job is the
  price per second of its effective model and resolution times its effective duration;
  jobs are classified remix, else image-sourced, else text; the nominal total is the sum
  of the three per-kind totals.
\<close>

definition nominalCost :: "BatchConfig \<Rightarrow> BatchJobConfig \<Rightarrow> number" where
  "nominalCost config job =
     fmul (pricePerSecond (effModel config job) (effSize config job)) (effSeconds config job)"

definition kindOf :: "BatchJobConfig \<Rightarrow> JobKind" where
  "kindOf job =
     (if truthyStr (job_remix_video_id job) then remix
      else if truthyStr (job_input_reference job) then image_to_video
      else text_to_video)"

definition kindTotal :: "BatchConfig \<Rightarrow> JobKind \<Rightarrow> number" where
  "kindTotal config k =
     foldl fadd 0 (map (nominalCost config) (filter (\<lambda>job. kindOf job = k) (jobs config)))"

definition nominalTotal :: "BatchConfig \<Rightarrow> number" where
  "nominalTotal config =
     fadd (fadd (kindTotal config text_to_video) (kindTotal config image_to_video))
       (kindTotal config remix)"

text \<open>One text-to-video job: model \<open>sora-2\<close>, size \<open>1280x720\<close>, 8 seconds.\<close>

definition job8 :: BatchJobConfig where
  "job8 =
     \<lparr>job_prompt = ''A cat playing piano in a jazz bar'', job_output_path = None,
      job_model = Some Sora2, job_size = Some S1280x720, job_seconds = Some 8,
      job_input_reference = None, job_remix_video_id = None\<rparr>"

definition plainConfig :: "BatchJobConfig list \<Rightarrow> BatchConfig" where
  "plainConfig js =
     \<lparr>jobs = js, output_dir = None, max_concurrent = None, timeout = None,
      poll_interval = None, max_poll_attempts = None, retry_policy = None,
      default_model = None, default_size = None, default_seconds = None\<rparr>"

section \<open>utils/batch-manager.ts: the retry wrapper\<close>

text \<open>
  The retry policy as \<open>executeBatch\<close> computes it: \<open>config.retry_policy?.f ?? default\<close>
  replaces a field only when the policy or the field is absent.
\<close>

record RetrySettings =
  maxRetries :: int
  retryDelay :: nat
  retryPatterns :: "string list"

definition retryPolicyOf :: "BatchConfig \<Rightarrow> RetrySettings" where
  "retryPolicyOf config =
     \<lparr>maxRetries =
        nullish (Option.bind (retry_policy config) max_retries) BATCH_DEFAULTS_retry_max_retries,
      retryDelay =
        nullish (Option.bind (retry_policy config) retry_delay_ms) BATCH_DEFAULTS_retry_delay_ms,
      retryPatterns =
        nullish (Option.bind (retry_policy config) retry_on_errors) BATCH_DEFAULTS_retry_on_errors\<rparr>"

definition shouldRetry :: "string \<Rightarrow> string list \<Rightarrow> bool" where
  "shouldRetry message patterns =
     (let errorMessage = toLowerCase message
      in list_ex (\<lambda>pattern. str_includes errorMessage (toLowerCase pattern)) patterns)"

text \<open>
  \<open>sleep(ms)\<close> resolves from a timer. A timer of Node.js runs its callback no earlier
  than its delay, and a delay below 1 or above \<open>2^31 - 1\<close> is replaced by 1.
\<close>

definition timerDelay :: "nat \<Rightarrow> nat" where
  "timerDelay ms = (if ms < 1 \<or> 2147483647 < ms then 1 else ms)"

text \<open>
  \<open>generateVideo\<close> and \<open>remixVideo\<close> are calls to the remote service. What one call
  does is an observation of the environment: the awaited promise settles with a
  \<open>VideoGenerationResult\<close> or rejects with a message, after \<open>att_took\<close> milliseconds; if
  the wrapper then sleeps, the timer runs \<open>att_overslept\<close> milliseconds late. A run of the
  wrapper consumes a script of such observations, one per attempt; when the script is
  exhausted the awaited call never settles and the wrapper never returns (\<open>None\<close>).
\<close>

datatype WorkOutcome = Settled VideoGenerationResult | Raised string

record Attempt =
  att_outcome :: WorkOutcome
  att_took :: nat
  att_overslept :: nat

text \<open>
  The \<open>try\<close> block after the call: an unsuccessful result is thrown as an error whose
  message is \<open>result.error || 'Unknown error'\<close>. \<open>Inl\<close> is the message of the error that
  reaches the \<open>catch\<close> block.
\<close>

definition attemptBody :: "WorkOutcome \<Rightarrow> string + VideoGenerationResult" where
  "attemptBody out =
     (case out of
        Raised message \<Rightarrow> Inl message
      | Settled result \<Rightarrow>
          if \<not> vid_success result then Inl (strOr (vid_error result) ''Unknown error'')
          else Inr result)"

definition completedResult ::
  "BatchJobConfig \<Rightarrow> nat \<Rightarrow> VideoGenerationResult \<Rightarrow> nat \<Rightarrow> BatchJobResult" where
  "completedResult job index result elapsed =
     \<lparr>res_index = index + 1, res_prompt = job_prompt job, res_status = Completed,
      res_output_path = vid_output_path result, res_video_url = vid_video_url result,
      res_video_id = vid_video_id result, res_error = None,
      res_duration_ms = Some elapsed, res_video_duration = vid_duration result,
      res_is_remix = Some (truthyStr (job_remix_video_id job)),
      res_is_image_to_video = Some (truthyStr (job_input_reference job))\<rparr>"

definition failedResult :: "BatchJobConfig \<Rightarrow> nat \<Rightarrow> string \<Rightarrow> nat \<Rightarrow> BatchJobResult" where
  "failedResult job index message elapsed =
     \<lparr>res_index = index + 1, res_prompt = job_prompt job, res_status = Failed,
      res_output_path = None, res_video_url = None, res_video_id = None,
      res_error = Some message, res_duration_ms = Some elapsed, res_video_duration = None,
      res_is_remix = Some (truthyStr (job_remix_video_id job)),
      res_is_image_to_video = Some (truthyStr (job_input_reference job))\<rparr>"

definition exceededResult :: "BatchJobConfig \<Rightarrow> nat \<Rightarrow> nat \<Rightarrow> BatchJobResult" where
  "exceededResult job index elapsed =
     \<lparr>res_index = index + 1, res_prompt = job_prompt job, res_status = Failed,
      res_output_path = None, res_video_url = None, res_video_id = None,
      res_error = Some ''Max retries exceeded'', res_duration_ms = Some elapsed,
      res_video_duration = None, res_is_remix = None, res_is_image_to_video = None\<rparr>"

text \<open>
  The loop \<open>for (let attempt = 0; attempt <= retryPolicy.maxRetries; attempt++)\<close>, from
  the attempt \<open>attempt\<close> on, at clock \<open>now\<close>; \<open>t0\<close> is \<open>jobStartTime\<close>. The value is the
  outcome, the clock when it is returned, and the observations not consumed.
\<close>

fun retryLoop ::
  "RetrySettings \<Rightarrow> BatchJobConfig \<Rightarrow> nat \<Rightarrow> nat \<Rightarrow> int \<Rightarrow> nat \<Rightarrow> Attempt list \<Rightarrow>
   (BatchJobResult \<times> nat \<times> Attempt list) option" where
  "retryLoop rp job index t0 attempt now [] =
     (if attempt \<le> maxRetries rp then None
      else Some (exceededResult job index (now - t0), now, []))"
| "retryLoop rp job index t0 attempt now (a # rest) =
     (if attempt \<le> maxRetries rp then
        (let settled = now + att_took a
         in case attemptBody (att_outcome a) of
              Inr result \<Rightarrow> Some (completedResult job index result (settled - t0), settled, rest)
            | Inl message \<Rightarrow>
                if attempt < maxRetries rp \<and> shouldRetry message (retryPatterns rp)
                then retryLoop rp job index t0 (attempt + 1)
                       (settled + timerDelay (retryDelay rp) + att_overslept a) rest
                else Some (failedResult job index message (settled - t0), settled, rest))
      else Some (exceededResult job index (now - t0), now, a # rest))"

definition executeJobWithRetry ::
  "RetrySettings \<Rightarrow> BatchJobConfig \<Rightarrow> nat \<Rightarrow> nat \<Rightarrow> Attempt list \<Rightarrow>
   (BatchJobResult \<times> nat \<times> Attempt list) option" where
  "executeJobWithRetry rp job index t0 script = retryLoop rp job index t0 0 t0 script"

section \<open>utils/path.ts and utils/batch-config.ts: output paths\<close>

text \<open>
  The functions of the \<open>path\<close> module of Node.js are a parameter of the model.
  \<open>fileExists\<close> is what \<open>fs.access\<close> answers while one call of
  \<open>generateUniqueFilePath\<close> runs.
\<close>

record PathLib =
  isAbsolute :: "string \<Rightarrow> bool"
  resolve :: "string \<Rightarrow> string"
  join :: "string \<Rightarrow> string \<Rightarrow> string"
  dirname :: "string \<Rightarrow> string"
  extname :: "string \<Rightarrow> string"
  basename :: "string \<Rightarrow> string \<Rightarrow> string"

text \<open>\<open>Inl\<close> is the message of the error that \<open>resolveOutputPath\<close> throws.\<close>

definition resolveOutputPath ::
  "PathLib \<Rightarrow> BatchJobConfig \<Rightarrow> nat \<Rightarrow> string \<Rightarrow> bool \<Rightarrow> string + string" where
  "resolveOutputPath path job index outputDir allowAny =
     (if truthyStr (job_output_path job) then
        (let output_path = the (job_output_path job)
         in if isAbsolute path output_path then
              (if \<not> allowAny \<and> \<not> startsWith output_path (resolve path outputDir)
               then Inl (''Job '' @ digitsOf (index + 1) @
                      '': absolute output_path must be within output_dir. '' @
                      ''Use --allow-any-path to override.'')
               else Inr output_path)
            else Inr (join path outputDir output_path))
      else
        (let namePrefix =
           (if truthyStr (job_remix_video_id job) then ''remixed''
            else if truthyStr (job_input_reference job) then ''animated''
            else ''generated'')
         in Inr (join path outputDir (namePrefix @ ''_'' @ digitsOf (index + 1) @ ''.mp4''))))"

text \<open>
  The loop \<open>while (await fileExists(uniquePath)) { counter++; ... }\<close>. It does not
  return when every candidate exists: the value is \<open>None\<close>.
\<close>

partial_function (option) uniqueLoop ::
  "(string \<Rightarrow> bool) \<Rightarrow> (nat \<Rightarrow> string) \<Rightarrow> nat \<Rightarrow> string option" where
  "uniqueLoop fileExists candidate counter =
     (if fileExists (candidate counter) then uniqueLoop fileExists candidate (counter + 1)
      else Some (candidate counter))"

declare uniqueLoop.simps [code]

definition generateUniqueFilePath ::
  "PathLib \<Rightarrow> (string \<Rightarrow> bool) \<Rightarrow> string \<Rightarrow> string option" where
  "generateUniqueFilePath path fileExists filePath =
     (if \<not> fileExists filePath then Some filePath
      else
        (let dir = dirname path filePath;
             ext = extname path filePath;
             baseName = basename path filePath ext
         in uniqueLoop fileExists
              (\<lambda>counter. join path dir (baseName @ ''_'' @ digitsOf counter @ ext)) 1))"

section \<open>utils/batch-manager.ts: the semaphore\<close>

text \<open>
  A waiter in the queue is the \<open>resolve\<close> callback of a suspended \<open>acquire\<close>; it is
  identified by the index of the job that waits. \<open>acquire\<close> answers whether the permit was
  granted at once; \<open>release\<close> answers which waiter, if any, it resumed.
\<close>

record Semaphore =
  permits :: int
  queue :: "nat list"

definition newSemaphore :: "int \<Rightarrow> Semaphore" where
  "newSemaphore n = \<lparr>permits = n, queue = []\<rparr>"

definition acquire :: "nat \<Rightarrow> Semaphore \<Rightarrow> bool \<times> Semaphore" where
  "acquire waiter sem =
     (if permits sem > 0 then (True, sem\<lparr>permits := permits sem - 1\<rparr>)
      else (False, sem\<lparr>queue := queue sem @ [waiter]\<rparr>))"

definition release :: "Semaphore \<Rightarrow> nat option \<times> Semaphore" where
  "release sem =
     (case queue sem of
        [] \<Rightarrow> (None, sem\<lparr>permits := permits sem + 1\<rparr>)
      | next # waiting \<Rightarrow> (Some next, sem\<lparr>queue := waiting\<rparr>))"

section \<open>utils/batch-manager.ts: executeBatch\<close>

subsection \<open>The state of one execution\<close>

text \<open>
  \<open>executeBatch\<close> is asynchronous: the job functions and the caller interleave on one
  event loop, at their \<open>await\<close>s. The model is a machine whose state holds the variables
  the closures share (\<open>results\<close>, \<open>timedOut\<close>, the semaphore), where every job function
  stands, and where \<open>executeBatch\<close> itself stands. One step of the machine is one
  callback of the event loop together with the promise reactions it schedules, which run
  before any other callback.

  A job function is
  \<^item> \<open>Waiting\<close>: not yet launched, or suspended in \<open>acquire\<close>;
  \<^item> \<open>Admitted\<close>: granted a permit by \<open>acquire\<close>, its continuation scheduled;
  \<^item> \<open>Resolving p\<close>: awaiting \<open>generateUniqueFilePath(p)\<close>;
  \<^item> \<open>Running u t0\<close>: awaiting \<open>executeJobWithRetry\<close>, called with the output path
    \<open>u\<close> when the clock showed \<open>t0\<close>;
  \<^item> \<open>Finished\<close>: returned, after the push of its outcome and the release;
  \<^item> \<open>Rejected e\<close>: ended by the error \<open>e\<close>, after the release.

  \<open>executeBatch\<close> is \<open>Racing\<close> (awaiting \<open>Promise.race\<close>), in the grace sleep that ends
  at a given clock value, or has ended: \<open>Returned\<close> with its value (the value at the moment
  of the return) or \<open>Threw\<close> with the message of the error. The clock counts
  milliseconds from the call of \<open>executeBatch\<close>.
\<close>

datatype Task =
  Waiting | Admitted | Resolving string | Running string nat | Finished | Rejected string

datatype Stage = Racing | Grace nat | Returned BatchResult | Threw string

record State =
  clock :: nat
  sem :: Semaphore
  tasks :: "Task list"
  collected :: "BatchJobResult list"
  timedOut :: bool
  allRejected :: "string option"
  stage :: Stage

text \<open>
  \<open>collected\<close> is the array \<open>results\<close>; \<open>allRejected\<close> is the error of the first job
  function that was rejected, with which \<open>Promise.all(jobPromises)\<close> rejects.

  The settings read at the head of \<open>executeBatch\<close>. The poll interval and the number of
  poll attempts are only handed on to \<open>generateVideo\<close> and \<open>remixVideo\<close>.
\<close>

definition maxConcurrentOf :: "BatchConfig \<Rightarrow> int" where
  "maxConcurrentOf config = jsOr (max_concurrent config) BATCH_DEFAULTS_max_concurrent"

definition timeoutOf :: "BatchConfig \<Rightarrow> int" where
  "timeoutOf config = jsOr (timeout config) BATCH_DEFAULTS_timeout"

definition outputDirOf :: "BatchConfig \<Rightarrow> string" where
  "outputDirOf config = strOr (output_dir config) ''./output''"

definition allowAnyPathOf :: "BatchExecutionOptions \<Rightarrow> bool" where
  "allowAnyPathOf options = (case allowAnyPath options of None \<Rightarrow> False | Some b \<Rightarrow> b)"

definition cancelledResult :: "BatchJobConfig \<Rightarrow> nat \<Rightarrow> string \<Rightarrow> BatchJobResult" where
  "cancelledResult job index reason =
     \<lparr>res_index = index + 1, res_prompt = job_prompt job, res_status = Cancelled,
      res_output_path = None, res_video_url = None, res_video_id = None,
      res_error = Some reason, res_duration_ms = None, res_video_duration = None,
      res_is_remix = None, res_is_image_to_video = None\<rparr>"

definition setTask :: "nat \<Rightarrow> Task \<Rightarrow> State \<Rightarrow> State" where
  "setTask i t s = s\<lparr>tasks := (tasks s)[i := t]\<rparr>"

definition pushResult :: "BatchJobResult \<Rightarrow> State \<Rightarrow> State" where
  "pushResult r s = s\<lparr>collected := collected s @ [r]\<rparr>"

definition rejectJob :: "nat \<Rightarrow> string \<Rightarrow> State \<Rightarrow> State" where
  "rejectJob i e s =
     (setTask i (Rejected e) s)
       \<lparr>allRejected := (case allRejected s of None \<Rightarrow> Some e | Some e' \<Rightarrow> Some e')\<rparr>"

subsection \<open>The job function\<close>

text \<open>
  \<open>enter\<close> is the job function from the return of \<open>await semaphore.acquire()\<close> to its
  next \<open>await\<close> or to its end: the check of \<open>timedOut\<close>, then \<open>resolveOutputPath\<close>. The
  flag tells whether the function still runs (it awaits \<open>generateUniqueFilePath\<close> and
  keeps its permit) or has ended, so that its \<open>finally\<close> block is next.
\<close>

definition enter ::
  "PathLib \<Rightarrow> BatchConfig \<Rightarrow> BatchExecutionOptions \<Rightarrow> nat \<Rightarrow> State \<Rightarrow> State \<times> bool" where
  "enter path config options i s =
     (let job = jobs config ! i in
      if timedOut s then
        (setTask i Finished
           (pushResult (cancelledResult job i ''Batch timed out before job started'') s), False)
      else
        (case resolveOutputPath path job i (outputDirOf config) (allowAnyPathOf options) of
           Inl e \<Rightarrow> (rejectJob i e s, False)
         | Inr outputPath \<Rightarrow> (setTask i (Resolving outputPath) s, True)))"

lemma enter_sem: "sem (fst (enter path config options i s)) = sem s"
  by (simp add: enter_def Let_def setTask_def pushResult_def rejectJob_def split: sum.splits)

lemma release_shorter:
  "release sm = (Some w, sm') \<Longrightarrow> length (queue sm') < length (queue sm)"
  by (auto simp: release_def split: list.splits)

text \<open>
  The \<open>finally\<close> block: \<open>semaphore.release()\<close>. A waiter that \<open>release\<close> resumes runs
  its own \<open>enter\<close> among the promise reactions of the same step, and when it ends there
  (cancelled or rejected) its \<open>finally\<close> block releases in turn.
\<close>

function finallyRelease ::
  "PathLib \<Rightarrow> BatchConfig \<Rightarrow> BatchExecutionOptions \<Rightarrow> State \<Rightarrow> State" where
  "finallyRelease path config options s =
     (case release (sem s) of
        (None, sem') \<Rightarrow> s\<lparr>sem := sem'\<rparr>
      | (Some next, sem') \<Rightarrow>
          (case enter path config options next (s\<lparr>sem := sem'\<rparr>) of
             (s', True) \<Rightarrow> s'
           | (s', False) \<Rightarrow> finallyRelease path config options s'))"
  by pat_completeness auto
termination
proof (relation "measure (\<lambda>(path, config, options, s). length (queue (sem s)))", goal_cases)
  case 1
  show ?case by simp
next
  case (2 path config options s x sem' waiter s' flag)
  from 2(3) have "sem s' = sem (fst (enter path config options waiter (s\<lparr>sem := sem'\<rparr>)))"
    by (metis fst_conv)
  then have "sem s' = sem'" by (simp add: enter_sem)
  moreover from 2(1,2) have "release (sem s) = (Some waiter, sem')"
    by simp
  then have "length (queue sem') < length (queue (sem s))"
    by (rule release_shorter)
  ultimately show ?case by simp
qed

declare finallyRelease.simps [simp del]

definition afterAcquire ::
  "PathLib \<Rightarrow> BatchConfig \<Rightarrow> BatchExecutionOptions \<Rightarrow> State \<Rightarrow> nat \<Rightarrow> State" where
  "afterAcquire path config options s i =
     (if tasks s ! i = Admitted then
        (case enter path config options i s of
           (s', True) \<Rightarrow> s'
         | (s', False) \<Rightarrow> finallyRelease path config options s')
      else s)"

subsection \<open>The caller\<close>

text \<open>
  \<open>calculateTotalCost\<close>, and the code after the race: the synthesis of the outcomes that
  are missing, the sort by index (the sort of JavaScript is stable, as \<open>sort_key\<close> is),
  the counts.
\<close>

definition calculateTotalCost :: "BatchJobResult list \<Rightarrow> BatchConfig \<Rightarrow> number" where
  "calculateTotalCost rs config =
     foldl (\<lambda>total result.
        if res_status result = Completed \<and> jsOr (res_video_duration result) 0 \<noteq> 0 then
          (let job = jobs config ! (res_index result - 1)
           in fadd total
                (calculateCost (effModel config job) (the (res_video_duration result))
                   (effSize config job)))
        else total) 0 rs"

definition finalize :: "BatchConfig \<Rightarrow> State \<Rightarrow> BatchResult" where
  "finalize config s =
     (let processedIndices = set (map res_index (collected s));
          remaining =
            map (\<lambda>i. cancelledResult (jobs config ! i) i ''Batch timed out or cancelled'')
              (filter (\<lambda>i. i + 1 \<notin> processedIndices) [0..<length (jobs config)]);
          sorted = sort_key res_index (collected s @ remaining)
      in \<lparr>total = length (jobs config),
          succeeded = length (filter (\<lambda>r. res_status r = Completed) sorted),
          failed = length (filter (\<lambda>r. res_status r = Failed) sorted),
          cancelled = length (filter (\<lambda>r. res_status r = Cancelled) sorted),
          results = sorted,
          started_at = 0,
          finished_at = clock s,
          total_duration_ms = clock s - 0,
          estimated_cost = calculateTotalCost sorted config\<rparr>)"

text \<open>
  The reactions to the settling of a job function while \<open>executeBatch\<close> awaits the race:
  \<open>Promise.all\<close> rejects with the first rejection, and \<open>executeBatch\<close> rethrows it;
  \<open>Promise.all\<close> is fulfilled when every job function has returned, and \<open>executeBatch\<close>
  goes on to its return.
\<close>

definition settle :: "BatchConfig \<Rightarrow> State \<Rightarrow> State" where
  "settle config s =
     (if stage s = Racing then
        (case allRejected s of
           Some e \<Rightarrow> s\<lparr>stage := Threw e\<rparr>
         | None \<Rightarrow>
             if list_all (\<lambda>t. t = Finished) (tasks s)
             then s\<lparr>stage := Returned (finalize config s)\<rparr> else s)
      else s)"

text \<open>
  The loop that creates the job functions. Each runs to its \<open>await\<close> of \<open>acquire\<close>, which
  grants a permit or enqueues the job at once. The continuations of the admitted jobs run
  next, before any callback; they are taken in the order of the jobs, and a waiter resumed
  by a release runs right after the job that released (the event loop would run it after
  the other admitted jobs: since \<open>timedOut\<close> is still false and \<open>resolveOutputPath\<close>
  reads no shared variable, the state reached is the same).
\<close>

definition launch :: "State \<Rightarrow> nat \<Rightarrow> State" where
  "launch s i =
     (case acquire i (sem s) of
        (True, sem') \<Rightarrow> setTask i Admitted (s\<lparr>sem := sem'\<rparr>)
      | (False, sem') \<Rightarrow> s\<lparr>sem := sem'\<rparr>)"

definition init :: "PathLib \<Rightarrow> BatchConfig \<Rightarrow> BatchExecutionOptions \<Rightarrow> State" where
  "init path config options =
     (let n = length (jobs config);
          s0 = \<lparr>clock = 0, sem = newSemaphore (maxConcurrentOf config),
                tasks = replicate n Waiting, collected = [], timedOut = False,
                allRejected = None, stage = Racing\<rparr>;
          s1 = foldl launch s0 [0..<n];
          s2 = foldl (afterAcquire path config options) s1 [0..<n]
      in settle config s2)"

subsection \<open>The events\<close>

text \<open>
  What the environment does, one callback at a time:
  \<^item> \<open>Tick d\<close>: \<open>d\<close> milliseconds pass;
  \<^item> \<open>PathChecked i fileExists\<close>: the \<open>generateUniqueFilePath\<close> that job \<open>i\<close> awaits
    settles, having seen the files \<open>fileExists\<close>;
  \<^item> \<open>JobSettled i script\<close>: the \<open>executeJobWithRetry\<close> that job \<open>i\<close> awaits returns,
    having observed \<open>script\<close>; the clock must show the time at which the script ends;
  \<^item> \<open>Timeout\<close>: the timer of the race fires, no earlier than its delay;
  \<^item> \<open>GraceOver\<close>: the timer of \<open>sleep(5000)\<close> fires, no earlier than its delay.

  An event that cannot happen in the state leaves it as it is.
\<close>

datatype Event =
    Tick nat
  | PathChecked nat "string \<Rightarrow> bool"
  | JobSettled nat "Attempt list"
  | Timeout
  | GraceOver

definition deadlineOf :: "BatchConfig \<Rightarrow> nat" where
  "deadlineOf config = timerDelay (nat (timeoutOf config))"

definition pathChecked ::
  "PathLib \<Rightarrow> nat \<Rightarrow> (string \<Rightarrow> bool) \<Rightarrow> State \<Rightarrow> State" where
  "pathChecked path i fileExists s =
     (if i < length (tasks s) then
        (case tasks s ! i of
           Resolving outputPath \<Rightarrow>
             (case generateUniqueFilePath path fileExists outputPath of
                None \<Rightarrow> s
              | Some uniquePath \<Rightarrow> setTask i (Running uniquePath (clock s)) s)
         | _ \<Rightarrow> s)
      else s)"

definition jobSettled ::
  "PathLib \<Rightarrow> BatchConfig \<Rightarrow> BatchExecutionOptions \<Rightarrow> nat \<Rightarrow> Attempt list \<Rightarrow> State \<Rightarrow> State" where
  "jobSettled path config options i script s =
     (if i < length (tasks s) then
        (case tasks s ! i of
           Running uniquePath t0 \<Rightarrow>
             (case executeJobWithRetry (retryPolicyOf config) (jobs config ! i) i t0 script of
                None \<Rightarrow> s
              | Some (result, fin, rest) \<Rightarrow>
                  if fin = clock s then
                    settle config
                      (finallyRelease path config options
                         (setTask i Finished (pushResult result s)))
                  else s)
         | _ \<Rightarrow> s)
      else s)"

definition timerFires :: "BatchConfig \<Rightarrow> State \<Rightarrow> State" where
  "timerFires config s =
     (if \<not> timedOut s \<and> deadlineOf config \<le> clock s then
        s\<lparr>timedOut := True,
          stage := (if stage s = Racing then Grace (clock s + timerDelay 5000) else stage s)\<rparr>
      else s)"

definition graceOver :: "BatchConfig \<Rightarrow> State \<Rightarrow> State" where
  "graceOver config s =
     (case stage s of
        Grace wake \<Rightarrow> if wake \<le> clock s then s\<lparr>stage := Returned (finalize config s)\<rparr> else s
      | _ \<Rightarrow> s)"

fun step ::
  "PathLib \<Rightarrow> BatchConfig \<Rightarrow> BatchExecutionOptions \<Rightarrow> State \<Rightarrow> Event \<Rightarrow> State" where
  "step path config options s (Tick d) = s\<lparr>clock := clock s + d\<rparr>"
| "step path config options s (PathChecked i fileExists) = pathChecked path i fileExists s"
| "step path config options s (JobSettled i script) = jobSettled path config options i script s"
| "step path config options s Timeout = timerFires config s"
| "step path config options s GraceOver = graceOver config s"

definition executeBatch ::
  "PathLib \<Rightarrow> BatchConfig \<Rightarrow> BatchExecutionOptions \<Rightarrow> Event list \<Rightarrow> State" where
  "executeBatch path config options events =
     foldl (step path config options) (init path config options) events"

section \<open>What holds in every state of an execution\<close>

text \<open>
  A job holds a permit from the grant to the release: while \<open>Admitted\<close>, \<open>Resolving\<close> or
  \<open>Running\<close>. Only a \<open>Running\<close> job is inside \<open>executeJobWithRetry\<close>, where it has at
  most one call of \<open>generateVideo\<close> or \<open>remixVideo\<close> in flight.
\<close>

definition holding :: "Task \<Rightarrow> bool" where
  "holding t =
     (case t of Admitted \<Rightarrow> True | Resolving p \<Rightarrow> True | Running u t0 \<Rightarrow> True | _ \<Rightarrow> False)"

definition executing :: "Task \<Rightarrow> bool" where
  "executing t = (case t of Running u t0 \<Rightarrow> True | _ \<Rightarrow> False)"

definition admitted :: "State \<Rightarrow> nat" where
  "admitted s = length (filter holding (tasks s))"

definition inFlight :: "State \<Rightarrow> nat" where
  "inFlight s = length (filter executing (tasks s))"

text \<open>
  The shape of a state: one task per job; the waiters are distinct jobs that wait; the
  recorded outcomes have distinct indices, each the index of a job that has returned.
\<close>

definition wellFormed :: "BatchConfig \<Rightarrow> State \<Rightarrow> bool" where
  "wellFormed config s \<longleftrightarrow>
     length (tasks s) = length (jobs config)
     \<and> distinct (queue (sem s))
     \<and> (\<forall>i \<in> set (queue (sem s)). i < length (jobs config) \<and> tasks s ! i = Waiting)
     \<and> distinct (map res_index (collected s))
     \<and> (\<forall>r \<in> set (collected s).
          1 \<le> res_index r \<and> res_index r \<le> length (jobs config)
          \<and> tasks s ! (res_index r - 1) = Finished)"

text \<open>The permits: those free and those held add up to \<open>c\<close>.\<close>

definition accounted :: "BatchConfig \<Rightarrow> int \<Rightarrow> State \<Rightarrow> bool" where
  "accounted config c s \<longleftrightarrow>
     permits (sem s) + int (admitted s) = c
     \<and> min 0 (maxConcurrentOf config) \<le> permits (sem s)"

text \<open>
  Where things come from: a rejection is an error of \<open>resolveOutputPath\<close> on a job of
  the batch; a recorded outcome is the cancellation of a job that started after the
  deadline, or what \<open>executeJobWithRetry\<close> returned for a job; a path in a task is the
  resolved path of the job, made unique; a value returned by \<open>executeBatch\<close> was computed
  by the final code from such a state.
\<close>

definition pathFails ::
  "PathLib \<Rightarrow> BatchConfig \<Rightarrow> BatchExecutionOptions \<Rightarrow> string \<Rightarrow> bool" where
  "pathFails path config options e \<longleftrightarrow>
     (\<exists>i < length (jobs config).
        resolveOutputPath path (jobs config ! i) i (outputDirOf config)
          (allowAnyPathOf options) = Inl e)"

definition genuine :: "BatchConfig \<Rightarrow> BatchJobResult \<Rightarrow> bool" where
  "genuine config r \<longleftrightarrow>
     (\<exists>i < length (jobs config).
        r = cancelledResult (jobs config ! i) i ''Batch timed out before job started''
        \<or> (\<exists>t0 script fin rest.
             executeJobWithRetry (retryPolicyOf config) (jobs config ! i) i t0 script =
               Some (r, fin, rest)))"

definition traced ::
  "PathLib \<Rightarrow> BatchConfig \<Rightarrow> BatchExecutionOptions \<Rightarrow> State \<Rightarrow> bool" where
  "traced path config options s \<longleftrightarrow>
     (\<forall>e. allRejected s = Some e \<longrightarrow> pathFails path config options e)
     \<and> (\<forall>e. stage s = Threw e \<longrightarrow> pathFails path config options e)
     \<and> (\<forall>r \<in> set (collected s). genuine config r)
     \<and> (\<forall>i p. i < length (jobs config) \<longrightarrow> tasks s ! i = Resolving p \<longrightarrow>
          resolveOutputPath path (jobs config ! i) i (outputDirOf config)
            (allowAnyPathOf options) = Inr p)
     \<and> (\<forall>i u t0. i < length (jobs config) \<longrightarrow> tasks s ! i = Running u t0 \<longrightarrow>
          (\<exists>p fileExists.
             resolveOutputPath path (jobs config ! i) i (outputDirOf config)
               (allowAnyPathOf options) = Inr p
             \<and> generateUniqueFilePath path fileExists p = Some u))
     \<and> (\<forall>b. stage s = Returned b \<longrightarrow>
          (\<exists>s0. wellFormed config s0 \<and> (\<forall>r \<in> set (collected s0). genuine config r)
             \<and> b = finalize config s0))"

definition consistent ::
  "PathLib \<Rightarrow> BatchConfig \<Rightarrow> BatchExecutionOptions \<Rightarrow> int \<Rightarrow> State \<Rightarrow> bool" where
  "consistent path config options c s \<longleftrightarrow>
     wellFormed config s \<and> accounted config c s \<and> traced path config options s"

section \<open>Runs in which the timers and the jobs keep time\<close>

text \<open>
  The machine lets time pass freely: a timer may fire late, a call may take any time. A
  test that pits a deadline against slow jobs fixes both. In a run that keeps time, the
  clock never passes the due time of the timer \<open>executeBatch\<close> is waiting for (the race
  timer while \<open>Racing\<close>, the grace timer during the grace sleep), and every attempt that
  an \<open>executeJobWithRetry\<close> observed took at least \<open>D\<close> milliseconds.
\<close>

definition onTime :: "BatchConfig \<Rightarrow> nat \<Rightarrow> State \<Rightarrow> Event \<Rightarrow> bool" where
  "onTime config D s e =
     (case e of
        Tick d \<Rightarrow>
          (case stage s of
             Racing \<Rightarrow> clock s + d \<le> deadlineOf config
           | Grace wake \<Rightarrow> clock s + d \<le> wake
           | _ \<Rightarrow> True)
      | JobSettled i script \<Rightarrow> list_all (\<lambda>a. D \<le> att_took a) script
      | _ \<Rightarrow> True)"

fun timely ::
  "PathLib \<Rightarrow> BatchConfig \<Rightarrow> BatchExecutionOptions \<Rightarrow> nat \<Rightarrow> State \<Rightarrow> Event list \<Rightarrow> bool" where
  "timely path config options D s [] = True"
| "timely path config options D s (e # es) =
     (onTime config D s e \<and> timely path config options D (step path config options s e) es)"

text \<open>The report in which every job is cancelled by the final code.\<close>

definition allCancelled :: "BatchConfig \<Rightarrow> BatchJobResult list" where
  "allCancelled config =
     map (\<lambda>i. cancelledResult (jobs config ! i) i ''Batch timed out or cancelled'')
       [0..<length (jobs config)]"

definition verdict :: "BatchConfig \<Rightarrow> BatchResult \<Rightarrow> bool" where
  "verdict config b \<longleftrightarrow>
     results b = allCancelled config \<and> cancelled b = length (jobs config)
     \<and> succeeded b = 0 \<and> failed b = 0 \<and> total b = length (jobs config)"

text \<open>
  Before the deadline has had its effect: nothing is recorded, nothing was rejected,
  and \<open>executeBatch\<close> awaits the race before the deadline or sleeps through the grace
  window.
\<close>

definition lapsing :: "BatchConfig \<Rightarrow> State \<Rightarrow> bool" where
  "lapsing config s \<longleftrightarrow>
     collected s = [] \<and> allRejected s = None
     \<and> (case stage s of
           Racing \<Rightarrow> \<not> timedOut s \<and> clock s \<le> deadlineOf config
         | Grace wake \<Rightarrow>
             timedOut s \<and> clock s \<le> wake \<and> wake \<le> deadlineOf config + 5000
         | Returned b \<Rightarrow> False
         | Threw e \<Rightarrow> False)"

definition calm :: "State \<Rightarrow> bool" where
  "calm s \<longleftrightarrow>
     collected s = [] \<and> allRejected s = None \<and> \<not> timedOut s \<and> stage s = Racing \<and> clock s = 0"

section \<open>Worked inputs\<close>

text \<open>
  The default retry policy (two retries, one second apart, the default triggers), an
  attempt that settles unsuccessfully with a given message after 300 ms and whose
  retry timer runs 2 ms late, and an attempt that succeeds after 9 seconds.
\<close>

definition rp2 :: RetrySettings where
  "rp2 = \<lparr>maxRetries = 2, retryDelay = 1000, retryPatterns = BATCH_DEFAULTS_retry_on_errors\<rparr>"


definition failing :: "string \<Rightarrow> Attempt" where
  "failing message =
     \<lparr>att_outcome =
        Settled \<lparr>vid_success = False, vid_video_id = None, vid_video_url = None,
          vid_output_path = None, vid_duration = None, vid_error = Some message\<rparr>,
      att_took = 300, att_overslept = 2\<rparr>"

definition video1 :: VideoGenerationResult where
  "video1 =
     \<lparr>vid_success = True, vid_video_id = Some ''video_1'', vid_video_url = None,
      vid_output_path = Some ''out/generated_1.mp4'', vid_duration = Some 8, vid_error = None\<rparr>"

definition succeeding :: Attempt where
  "succeeding = \<lparr>att_outcome = Settled video1, att_took = 9000, att_overslept = 0\<rparr>"

definition noRetryConfig :: BatchConfig where
  "noRetryConfig =
     (plainConfig [job8])
       \<lparr>retry_policy :=
          Some \<lparr>max_retries = Some 5, retry_delay_ms = None, retry_on_errors = Some []\<rparr>\<rparr>"

text \<open>
  A small instance of the path functions, for POSIX paths without \<open>.\<close> and \<open>..\<close>
  segments, in a process whose working directory is \<open>cwd\<close>.
\<close>

definition lastSegment :: "string \<Rightarrow> string" where
  "lastSegment p = rev (takeWhile (\<lambda>c. c \<noteq> CHR ''/'') (rev p))"

definition posix :: "string \<Rightarrow> PathLib" where
  "posix cwd =
     \<lparr>isAbsolute = (\<lambda>p. case p of [] \<Rightarrow> False | c # _ \<Rightarrow> c = CHR ''/''),
      resolve = (\<lambda>p. case p of [] \<Rightarrow> cwd | c # _ \<Rightarrow> if c = CHR ''/'' then p else cwd @ ''/'' @ p),
      join = (\<lambda>a b. a @ ''/'' @ b),
      dirname = (\<lambda>p. let d = rev (drop 1 (dropWhile (\<lambda>c. c \<noteq> CHR ''/'') (rev p)))
                      in if d = [] then ''.'' else d),
      extname = (\<lambda>p. let b = lastSegment p
                      in if CHR ''.'' \<in> set (drop 1 b)
                         then CHR ''.'' # rev (takeWhile (\<lambda>c. c \<noteq> CHR ''.'') (rev b)) else []),
      basename = (\<lambda>p ext. let b = lastSegment p
                      in if ext \<noteq> [] \<and> suffix ext b \<and> b \<noteq> ext
                         then take (length b - length ext) b else b)\<rparr>"

definition textJob :: "string \<Rightarrow> string option \<Rightarrow> BatchJobConfig" where
  "textJob prompt target =
     \<lparr>job_prompt = prompt, job_output_path = target, job_model = None, job_size = None,
      job_seconds = None, job_input_reference = None, job_remix_video_id = None\<rparr>"

definition noOptions :: BatchExecutionOptions where
  "noOptions = \<lparr>allowAnyPath = None\<rparr>"

text \<open>Three jobs, two at a time, into the directory \<open>out\<close>.\<close>

definition threeJobs :: BatchConfig where
  "threeJobs =
     (plainConfig [textJob ''a cat'' None, textJob ''a dog'' None, textJob ''a bird'' None])
       \<lparr>output_dir := Some ''out'', max_concurrent := Some 2\<rparr>"

definition noFile :: "string \<Rightarrow> bool" where
  "noFile p = False"

text \<open>
  A run of the three jobs: the second fails for good after 300 ms, which admits the
  third; the first and the third succeed after 9 seconds each.
\<close>

definition threeJobsRun :: "Event list" where
  "threeJobsRun =
     [PathChecked 0 noFile, PathChecked 1 noFile, Tick 300,
      JobSettled 1 [failing ''Access denied.''], PathChecked 2 noFile, Tick 8700,
      JobSettled 0 [succeeding], Tick 300, JobSettled 2 [succeeding]]"

text \<open>The same jobs under a deadline of 100 ms, with nothing settling before 5100 ms.\<close>

definition hastyConfig :: BatchConfig where
  "hastyConfig = threeJobs\<lparr>timeout := Some 100\<rparr>"

definition hastyRun :: "Event list" where
  "hastyRun =
     [PathChecked 0 noFile, PathChecked 1 noFile, Tick 100, Timeout, Tick 5000, GraceOver]"

text \<open>A job whose absolute output path lies outside the output directory.\<close>

definition strayConfig :: BatchConfig where
  "strayConfig =
     (plainConfig [textJob ''a cat'' (Some ''/tmp/cat.mp4'')])\<lparr>output_dir := Some ''out''\<rparr>"


text \<open>The first two path checks of the three jobs.\<close>

definition firstChecks :: "Event list" where
  "firstChecks = [PathChecked 0 noFile, PathChecked 1 noFile]"

text \<open>The three jobs after the launch, and after their run, before the reactions that return.\<close>

definition threeJobs0 :: State where
  "threeJobs0 =
    \<lparr>clock = 0, sem = \<lparr>permits = 0, queue = [2]\<rparr>,
     tasks = [Resolving ''out/generated_1.mp4'', Resolving ''out/generated_2.mp4'', Waiting],
     collected = [], timedOut = False, allRejected = None, stage = Racing\<rparr>"

definition threeJobsEnd :: State where
  "threeJobsEnd =
    \<lparr>clock = 9300, sem = \<lparr>permits = 2, queue = []\<rparr>,
     tasks = [Finished, Finished, Finished],
     collected =
       [failedResult (textJob ''a dog'' None) 1 ''Access denied.'' 300,
        completedResult (textJob ''a cat'' None) 0 video1 9000,
        completedResult (textJob ''a bird'' None) 2 video1 9000],
     timedOut = False, allRejected = None, stage = Racing\<rparr>"

text \<open>The hasty run at the end of the grace window, before the final code.\<close>

definition hastyEnd :: State where
  "hastyEnd =
    \<lparr>clock = 5100, sem = \<lparr>permits = 0, queue = [2]\<rparr>,
     tasks = [Running ''out/generated_1.mp4'' 0, Running ''out/generated_2.mp4'' 0, Waiting],
     collected = [], timedOut = True, allRejected = None, stage = Grace 5100\<rparr>"


text \<open>The hasty run up to the deadline, and through the grace sleep.\<close>

definition hastyDue :: "Event list" where
  "hastyDue = [PathChecked 0 noFile, PathChecked 1 noFile, Tick 100]"

definition hastySleep :: "Event list" where
  "hastySleep = [PathChecked 0 noFile, PathChecked 1 noFile, Tick 100, Timeout, Tick 5000]"

text \<open>
  The hasty batch when the second job is refused 300 ms after its start, during the grace
  sleep: its outcome is recorded, and the third job, resumed by the release, finds the
  deadline passed.
\<close>

definition lateSleep :: "Event list" where
  "lateSleep =
     [PathChecked 0 noFile, PathChecked 1 noFile, Tick 100, Timeout, Tick 200,
      JobSettled 1 [failing ''Access denied.''], Tick 4800]"

definition lateEnd :: State where
  "lateEnd =
    \<lparr>clock = 5100, sem = \<lparr>permits = 1, queue = []\<rparr>,
     tasks = [Running ''out/generated_1.mp4'' 0, Finished, Finished],
     collected =
       [failedResult (textJob ''a dog'' None) 1 ''Access denied.'' 300,
        cancelledResult (textJob ''a bird'' None) 2 ''Batch timed out before job started''],
     timedOut = True, allRejected = None, stage = Grace 5100\<rparr>"

section \<open>The double arithmetic on the literals of the source\<close>

text \<open>
  The rounding reproduces the binary64 values of the decimal literals: \<open>0.1\<close> is
  \<open>0x3FB999999999999A\<close>, that is \<open>3602879701896397 / 2^55\<close>.
\<close>

lemma fl_literals:
  "quotient_of (fl (1 / 10)) = (3602879701896397, 36028797018963968)"
  "quotient_of (fl (9 / 10)) = (8106479329266893, 9007199254740992)"
  "quotient_of (fl (12 / 10)) = (5404319552844595, 4503599627370496)"
  "fl (5 / 10) = 1 / 2"
  "fl 8 = 8"
  by code_simp+

section \<open>The cost estimator\<close>

lemma costStep_totals:
  "textToVideoCost (foldl (costStep c) a js) =
     foldl fadd (textToVideoCost a)
       (map (nominalCost c) (filter (\<lambda>j. kindOf j = text_to_video) js))
   \<and> imageToVideoCost (foldl (costStep c) a js) =
     foldl fadd (imageToVideoCost a)
       (map (nominalCost c) (filter (\<lambda>j. kindOf j = image_to_video) js))
   \<and> remixCost (foldl (costStep c) a js) =
     foldl fadd (remixCost a) (map (nominalCost c) (filter (\<lambda>j. kindOf j = remix) js))"
  by (induction js arbitrary: a)
     (simp_all add: costStep_def kindOf_def nominalCost_def calculateCost_def Let_def)

lemma estimate_of_nominalTotal:
  "estimated_min (estimateBatchCost this config) = fmul (nominalTotal config) (fl (9 / 10))"
  "estimated_max (estimateBatchCost this config) = fmul (nominalTotal config) (fl (12 / 10))"
  by (simp_all add: estimateBatchCost_def Let_def nominalTotal_def kindTotal_def
        costStep_totals costAcc0_def)

text \<open>
  C8, as amended. For every configuration the estimator's band is the nominal total of
  the specification (per job: price per second of the effective model and resolution
  times the effective duration; summed per kind, then over the kinds) multiplied by
  \<open>0.9\<close> and by \<open>1.2\<close>, all in double arithmetic. For the single job \<open>sora-2\<close>,
  \<open>1280x720\<close>, 8 seconds the nominal cost is \<open>0.1 * 8 = 0.8\<close> and the upper end is
  \<open>0.96\<close>, but the lower end is \<open>0.8 * 0.9 = 0.7200000000000001\<close>: one unit in the last
  place (\<open>2^-53\<close>) above the double \<open>0.72\<close>.
\<close>

theorem estimateBatchCost_band:
  "estimated_min (estimateBatchCost this config) = fmul (nominalTotal config) (fl (9 / 10))
   \<and> estimated_max (estimateBatchCost this config) = fmul (nominalTotal config) (fl (12 / 10))
   \<and> total_jobs (estimateBatchCost this config) = length (jobs config)
   \<and> pricePerSecond Sora2 S1280x720 = fl (1 / 10)
   \<and> nominalCost (plainConfig [job8]) job8 = fl (8 / 10)
   \<and> nominalTotal (plainConfig [job8]) = fl (8 / 10)
   \<and> estimated_min (estimateBatchCost this (plainConfig [job8])) = fl (72 / 100) + pow2 (- 53)
   \<and> estimated_max (estimateBatchCost this (plainConfig [job8])) = fl (96 / 100)"
proof -
  have "total_jobs (estimateBatchCost this config) = length (jobs config)"
    by (simp add: estimateBatchCost_def Let_def)
  moreover have "pricePerSecond Sora2 S1280x720 = fl (1 / 10)"
    by code_simp
  moreover have "nominalCost (plainConfig [job8]) job8 = fl (8 / 10)"
    by code_simp
  moreover have "nominalTotal (plainConfig [job8]) = fl (8 / 10)"
    by code_simp
  moreover have
    "estimated_min (estimateBatchCost this (plainConfig [job8])) = fl (72 / 100) + pow2 (- 53)"
    by code_simp
  moreover have "estimated_max (estimateBatchCost this (plainConfig [job8])) = fl (96 / 100)"
    by code_simp
  ultimately show ?thesis
    by (simp only: estimate_of_nominalTotal simp_thms)
qed

text \<open>
  C8 as stated fails at its own example: the lower end of the band that the code
  returns is not the double \<open>0.72\<close>.
\<close>

theorem estimateBatchCost_band_counterexample:
  "estimated_min (estimateBatchCost \<lparr>apiKey = ''sk-test''\<rparr> (plainConfig [job8])) \<noteq> fl (72 / 100)"
  by code_simp

section \<open>The retry wrapper\<close>

lemma shouldRetry_iff:
  "shouldRetry message patterns \<longleftrightarrow>
     (\<exists>pattern \<in> set patterns. sublist (toLowerCase pattern) (toLowerCase message))"
  by (simp add: shouldRetry_def str_includes_def list_ex_iff)

lemma includes_shouldRetry:
  assumes "pattern \<in> set patterns" "str_includes message pattern"
  shows "shouldRetry message patterns"
proof -
  from assms(2) obtain ps ss where "message = ps @ pattern @ ss"
    by (auto simp: str_includes_def sublist_def)
  then have "toLowerCase message = toLowerCase ps @ toLowerCase pattern @ toLowerCase ss"
    by (simp add: toLowerCase_def)
  then have "sublist (toLowerCase pattern) (toLowerCase message)"
    by (metis sublist_appendI)
  with assms(1) show ?thesis by (auto simp: shouldRetry_iff)
qed

subsection \<open>shouldRetry is containment that ignores case\<close>










text \<open>How many observations a run of the loop consumes, and what its clock shows.\<close>

lemma retryLoop_clock:
  "retryLoop rp job index t0 attempt now script = Some (r, fin, rest) \<Longrightarrow>
     \<exists>used. script = used @ rest \<and> (attempt \<le> maxRetries rp \<longrightarrow> used \<noteq> []) \<and>
       int (length used) \<le> max 0 (maxRetries rp + 1 - attempt) \<and>
       fin = now + sum_list (map att_took used) +
         sum_list (map (\<lambda>a. timerDelay (retryDelay rp) + att_overslept a) (butlast used))"
proof (induction script arbitrary: attempt now)
  case Nil
  then show ?case by (simp split: if_splits)
next
  case (Cons a script)
  show ?case
  proof (cases "attempt \<le> maxRetries rp")
    case False
    with Cons.prems show ?thesis by simp
  next
    case le: True
    show ?thesis
    proof (cases "attemptBody (att_outcome a)")
      case (Inr result)
      with le Cons.prems have "rest = script" "fin = now + att_took a"
        by (simp_all add: Let_def)
      with le show ?thesis by (intro exI[of _ "[a]"]) simp
    next
      case (Inl message)
      show ?thesis
      proof (cases "attempt < maxRetries rp \<and> shouldRetry message (retryPatterns rp)")
        case False
        with le Inl Cons.prems have "rest = script" "fin = now + att_took a"
          by (auto simp add: Let_def)
        with le show ?thesis by (intro exI[of _ "[a]"]) simp
      next
        case True
        with le Inl Cons.prems have
          "retryLoop rp job index t0 (attempt + 1)
             (now + att_took a + timerDelay (retryDelay rp) + att_overslept a) script =
           Some (r, fin, rest)"
          by (simp add: Let_def)
        from Cons.IH[OF this] True obtain used where
          u: "script = used @ rest" "used \<noteq> []"
            "int (length used) \<le> max 0 (maxRetries rp + 1 - (attempt + 1))"
            "fin = now + att_took a + timerDelay (retryDelay rp) + att_overslept a
               + sum_list (map att_took used)
               + sum_list (map (\<lambda>a. timerDelay (retryDelay rp) + att_overslept a) (butlast used))"
          by auto
        with True show ?thesis by (intro exI[of _ "a # used"]) simp
      qed
    qed
  qed
qed

lemma retryLoop_elapsed:
  "retryLoop rp job index t0 attempt now script = Some (r, fin, rest) \<Longrightarrow> t0 \<le> now \<Longrightarrow>
     res_duration_ms r = Some (fin - t0) \<and> now \<le> fin \<and> res_index r = index + 1"
proof (induction script arbitrary: attempt now)
  case Nil
  then show ?case by (auto simp: exceededResult_def split: if_splits)
next
  case (Cons a script)
  show ?case
  proof (cases "attempt \<le> maxRetries rp")
    case False
    with Cons.prems show ?thesis by (auto simp: exceededResult_def)
  next
    case le: True
    show ?thesis
    proof (cases "attemptBody (att_outcome a)")
      case (Inr result)
      with le Cons.prems show ?thesis by (auto simp add: Let_def completedResult_def)
    next
      case (Inl message)
      show ?thesis
      proof (cases "attempt < maxRetries rp \<and> shouldRetry message (retryPatterns rp)")
        case False
        with le Inl Cons.prems show ?thesis by (auto simp add: Let_def failedResult_def)
      next
        case True
        with le Inl Cons.prems have
          "retryLoop rp job index t0 (attempt + 1)
             (now + att_took a + timerDelay (retryDelay rp) + att_overslept a) script =
           Some (r, fin, rest)"
          by (simp add: Let_def)
        from Cons.IH[OF this] Cons.prems(2) show ?thesis by simp
      qed
    qed
  qed
qed

subsection \<open>Facts about the worked inputs\<close>

lemma rp2_fields:
  "maxRetries rp2 = 2" "retryDelay rp2 = 1000" "timerDelay 1000 = 1000"
  "retryPatterns rp2 = BATCH_DEFAULTS_retry_on_errors"
  by (simp_all add: rp2_def timerDelay_def)

lemma failing_fields:
  "att_took (failing x) = 300" "att_overslept (failing x) = 2"
  "x \<noteq> [] \<Longrightarrow> attemptBody (att_outcome (failing x)) = Inl x"
  by (simp_all add: failing_def attemptBody_def strOr_def truthyStr_def)

lemma succeeding_fields:
  "att_took succeeding = 9000" "att_overslept succeeding = 0"
  "attemptBody (att_outcome succeeding) = Inr video1"
  by (simp_all add: succeeding_def attemptBody_def video1_def)

lemma shouldRetry_examples:
  "shouldRetry ''HTTP 503'' BATCH_DEFAULTS_retry_on_errors"
  "shouldRetry ''API error: 429 - slow down'' BATCH_DEFAULTS_retry_on_errors"
  "shouldRetry ''Request TIMEOUT'' BATCH_DEFAULTS_retry_on_errors"
  "\<not> shouldRetry ''Access denied.'' BATCH_DEFAULTS_retry_on_errors"
  by code_simp+




lemma run_503:
  "executeJobWithRetry rp2 job8 0 0
     [failing ''HTTP 503'', failing ''HTTP 503'', failing ''HTTP 503'', succeeding] =
   Some (failedResult job8 0 ''HTTP 503'' 2904, 2904, [succeeding])"
  by (simp add: executeJobWithRetry_def Let_def rp2_fields failing_fields shouldRetry_examples)

subsection \<open>C3: when a failed attempt is retried\<close>




subsection \<open>C4: the elapsed time of the final outcome\<close>

text \<open>
  C4. \<open>jobStartTime\<close> is read once, before the first attempt; the \<open>duration_ms\<close> of the
  outcome is the clock at the return minus that start, hence the time of every attempt
  made plus every retry sleep between them, not the time of the last attempt. When two
  attempts fail with a message containing \<open>429\<close> (a trigger of the policy, as it is of
  the default policy) and the third succeeds, under \<open>maxRetries = 2\<close>, the outcome is
  \<open>completed\<close> and its elapsed time is at least twice the retry delay. A timer of
  Node.js honours a delay up to \<open>2^31 - 1\<close> ms, which bounds the delay here.
\<close>

theorem executeJobWithRetry_elapsed:
  "(executeJobWithRetry rp job index t0 script = Some (r, fin, rest) \<longrightarrow>
      (\<exists>used. script = used @ rest \<and>
         res_duration_ms r = Some (fin - t0) \<and>
         fin - t0 = sum_list (map att_took used) +
           sum_list (map (\<lambda>a. timerDelay (retryDelay rp) + att_overslept a) (butlast used))))
   \<and> (maxRetries rp = 2 \<and> ''429'' \<in> set (retryPatterns rp) \<and> retryDelay rp \<le> 2147483647 \<and>
       attemptBody (att_outcome a1) = Inl m1 \<and> str_includes m1 ''429'' \<and>
       attemptBody (att_outcome a2) = Inl m2 \<and> str_includes m2 ''429'' \<and>
       attemptBody (att_outcome a3) = Inr v \<longrightarrow>
       (\<exists>r' elapsed. executeJobWithRetry rp job index t0 [a1, a2, a3] =
            Some (r', t0 + elapsed, []) \<and>
          res_status r' = Completed \<and> res_duration_ms r' = Some elapsed \<and>
          2 * retryDelay rp \<le> elapsed))"
proof (intro conjI impI)
  assume run: "executeJobWithRetry rp job index t0 script = Some (r, fin, rest)"
  then have rl: "retryLoop rp job index t0 0 t0 script = Some (r, fin, rest)"
    by (simp add: executeJobWithRetry_def)
  from retryLoop_clock[OF rl] obtain used where
    u: "script = used @ rest"
      "fin = t0 + sum_list (map att_took used) +
         sum_list (map (\<lambda>a. timerDelay (retryDelay rp) + att_overslept a) (butlast used))"
    by blast
  from retryLoop_elapsed[OF rl] have "res_duration_ms r = Some (fin - t0)" by simp
  with u show "\<exists>used. script = used @ rest \<and>
         res_duration_ms r = Some (fin - t0) \<and>
         fin - t0 = sum_list (map att_took used) +
           sum_list (map (\<lambda>a. timerDelay (retryDelay rp) + att_overslept a) (butlast used))"
    by (intro exI[of _ used]) simp
next
  assume h: "maxRetries rp = 2 \<and> ''429'' \<in> set (retryPatterns rp) \<and> retryDelay rp \<le> 2147483647 \<and>
       attemptBody (att_outcome a1) = Inl m1 \<and> str_includes m1 ''429'' \<and>
       attemptBody (att_outcome a2) = Inl m2 \<and> str_includes m2 ''429'' \<and>
       attemptBody (att_outcome a3) = Inr v"
  then have s1: "shouldRetry m1 (retryPatterns rp)" and s2: "shouldRetry m2 (retryPatterns rp)"
    by (auto intro: includes_shouldRetry)
  let ?d = "timerDelay (retryDelay rp)"
  let ?e = "att_took a1 + ?d + att_overslept a1 + att_took a2 + ?d + att_overslept a2 + att_took a3"
  from h have d: "retryDelay rp \<le> ?d" by (simp add: timerDelay_def)
  from h s1 s2 have "executeJobWithRetry rp job index t0 [a1, a2, a3] =
      Some (completedResult job index v ?e, t0 + ?e, [])"
    by (simp add: executeJobWithRetry_def Let_def add.assoc)
  moreover have "res_status (completedResult job index v ?e) = Completed"
    "res_duration_ms (completedResult job index v ?e) = Some ?e"
    by (simp_all add: completedResult_def)
  moreover from d have "2 * retryDelay rp \<le> ?e" by simp
  ultimately show "\<exists>r' elapsed. executeJobWithRetry rp job index t0 [a1, a2, a3] =
            Some (r', t0 + elapsed, []) \<and>
          res_status r' = Completed \<and> res_duration_ms r' = Some elapsed \<and>
          2 * retryDelay rp \<le> elapsed"
    by blast
qed

theorem executeJobWithRetry_elapsed_witness:
  "(\<exists>used. [failing ''HTTP 503'', failing ''HTTP 503'', failing ''HTTP 503'', succeeding] =
        used @ [succeeding] \<and>
      res_duration_ms (failedResult job8 0 ''HTTP 503'' 2904) = Some (2904 - 0) \<and>
      2904 - 0 = sum_list (map att_took used) +
        sum_list (map (\<lambda>a. timerDelay (retryDelay rp2) + att_overslept a) (butlast used)))
   \<and> (\<exists>r' elapsed.
        executeJobWithRetry rp2 job8 0 5
          [failing ''API error: 429 - slow down'', failing ''HTTP 429'', succeeding] =
          Some (r', 5 + elapsed, []) \<and>
        res_status r' = Completed \<and> res_duration_ms r' = Some elapsed \<and>
        2 * retryDelay rp2 \<le> elapsed)"
proof -
  have h: "maxRetries rp2 = 2 \<and> ''429'' \<in> set (retryPatterns rp2) \<and>
       retryDelay rp2 \<le> 2147483647 \<and>
       attemptBody (att_outcome (failing ''API error: 429 - slow down'')) =
         Inl ''API error: 429 - slow down'' \<and>
       str_includes ''API error: 429 - slow down'' ''429'' \<and>
       attemptBody (att_outcome (failing ''HTTP 429'')) = Inl ''HTTP 429'' \<and>
       str_includes ''HTTP 429'' ''429'' \<and>
       attemptBody (att_outcome succeeding) = Inr video1"
  proof -
    have "str_includes ''API error: 429 - slow down'' ''429''" "str_includes ''HTTP 429'' ''429''"
      by code_simp+
    then show ?thesis
      by (simp add: rp2_fields failing_fields succeeding_fields
            BATCH_DEFAULTS_retry_on_errors_def)
  qed
  note main = executeJobWithRetry_elapsed
  from main[where rp = rp2 and job = job8 and index = 0 and ?t0.0 = 0
      and script = "[failing ''HTTP 503'', failing ''HTTP 503'', failing ''HTTP 503'', succeeding]"
      and r = "failedResult job8 0 ''HTTP 503'' 2904" and fin = 2904 and rest = "[succeeding]"]
    run_503
  have c1: "\<exists>used. [failing ''HTTP 503'', failing ''HTTP 503'', failing ''HTTP 503'', succeeding] =
        used @ [succeeding] \<and>
      res_duration_ms (failedResult job8 0 ''HTTP 503'' 2904) = Some (2904 - 0) \<and>
      2904 - 0 = sum_list (map att_took used) +
        sum_list (map (\<lambda>a. timerDelay (retryDelay rp2) + att_overslept a) (butlast used))"
    by blast
  from main[where rp = rp2 and job = job8 and index = 0 and ?t0.0 = 5
      and ?a1.0 = "failing ''API error: 429 - slow down''"
      and ?m1.0 = "''API error: 429 - slow down''"
      and ?a2.0 = "failing ''HTTP 429''" and ?m2.0 = "''HTTP 429''"
      and ?a3.0 = succeeding and v = video1] h
  have c2: "\<exists>r' elapsed.
        executeJobWithRetry rp2 job8 0 5
          [failing ''API error: 429 - slow down'', failing ''HTTP 429'', succeeding] =
          Some (r', 5 + elapsed, []) \<and>
        res_status r' = Completed \<and> res_duration_ms r' = Some elapsed \<and>
        2 * retryDelay rp2 \<le> elapsed"
    by blast
  from c1 c2 show ?thesis by blast
qed

subsection \<open>C10: an explicitly empty list of triggers\<close>

text \<open>
  C10. \<open>retry_on_errors ?? defaults\<close> keeps an explicitly empty list; the defaults stand
  in only when the policy or the field is absent. Over the empty list \<open>shouldRetry\<close> is
  false for every message, so under such a configuration a failed attempt, at any attempt
  number and whatever \<open>max_retries\<close> is, is returned as the final \<open>failed\<close> outcome.
\<close>

theorem empty_retry_on_errors_never_retries:
  "(retry_policy config = Some pol \<and> retry_on_errors pol = Some [] \<longrightarrow>
      retryPatterns (retryPolicyOf config) = [])
   \<and> (retry_policy config = Some pol \<and> retry_on_errors pol = None \<longrightarrow>
      retryPatterns (retryPolicyOf config) = BATCH_DEFAULTS_retry_on_errors)
   \<and> (retry_policy config = None \<longrightarrow>
      retryPatterns (retryPolicyOf config) = BATCH_DEFAULTS_retry_on_errors)
   \<and> \<not> shouldRetry message []
   \<and> (retry_policy config = Some pol \<and> retry_on_errors pol = Some [] \<and>
       attempt \<le> maxRetries (retryPolicyOf config) \<and>
       attemptBody (att_outcome a) = Inl message \<longrightarrow>
       retryLoop (retryPolicyOf config) job index t0 attempt now (a # rest) =
         Some (failedResult job index message (now + att_took a - t0), now + att_took a, rest))"
proof (intro conjI impI)
  show "\<not> shouldRetry message []"
    by (simp add: shouldRetry_def)
next
  assume h: "retry_policy config = Some pol \<and> retry_on_errors pol = Some [] \<and>
       attempt \<le> maxRetries (retryPolicyOf config) \<and>
       attemptBody (att_outcome a) = Inl message"
  then have "retryPatterns (retryPolicyOf config) = []"
    by (simp add: retryPolicyOf_def nullish_def)
  with h show "retryLoop (retryPolicyOf config) job index t0 attempt now (a # rest) =
         Some (failedResult job index message (now + att_took a - t0), now + att_took a, rest)"
    by (simp add: Let_def shouldRetry_def)
qed (simp_all add: retryPolicyOf_def nullish_def)

theorem empty_retry_on_errors_never_retries_witness:
  "retryPatterns (retryPolicyOf noRetryConfig) = []
   \<and> maxRetries (retryPolicyOf noRetryConfig) = 5
   \<and> retryPatterns (retryPolicyOf (plainConfig [job8])) = BATCH_DEFAULTS_retry_on_errors
   \<and> retryLoop (retryPolicyOf noRetryConfig) job8 0 0 0 0
        [failing ''API error: 429 - slow down'', succeeding] =
       Some (failedResult job8 0 ''API error: 429 - slow down'' 300, 300, [succeeding])"
proof -
  let ?pol = "\<lparr>max_retries = Some 5, retry_delay_ms = None, retry_on_errors = Some []\<rparr>"
  have p: "retry_policy noRetryConfig = Some ?pol" "retry_on_errors ?pol = Some []"
    "retry_policy (plainConfig [job8]) = None"
    by (simp_all add: noRetryConfig_def plainConfig_def)
  have m: "maxRetries (retryPolicyOf noRetryConfig) = 5"
    by (simp add: retryPolicyOf_def noRetryConfig_def nullish_def)
  have b: "attemptBody (att_outcome (failing ''API error: 429 - slow down'')) =
      Inl ''API error: 429 - slow down''"
    by (simp add: failing_fields)
  note main = empty_retry_on_errors_never_retries
  from main[where config = noRetryConfig and pol = ?pol and attempt = 0
      and a = "failing ''API error: 429 - slow down''"
      and message = "''API error: 429 - slow down''"
      and job = job8 and index = 0 and ?t0.0 = 0 and now = 0 and rest = "[succeeding]"] p m b
  have c1: "retryPatterns (retryPolicyOf noRetryConfig) = []"
    and c2: "retryLoop (retryPolicyOf noRetryConfig) job8 0 0 0 0
        [failing ''API error: 429 - slow down'', succeeding] =
       Some (failedResult job8 0 ''API error: 429 - slow down'' 300, 300, [succeeding])"
    by (simp_all add: failing_fields)
  from main[where config = "plainConfig [job8]"] p
  have c3: "retryPatterns (retryPolicyOf (plainConfig [job8])) = BATCH_DEFAULTS_retry_on_errors"
    by blast
  from c1 m c3 c2 show ?thesis by blast
qed

section \<open>The invariant of the batch coordinator\<close>

subsection \<open>Counting tasks\<close>

lemma count_update:
  "i < length xs \<Longrightarrow>
     int (length (filter P (xs[i := t]))) =
       int (length (filter P xs)) - (if P (xs ! i) then 1 else 0) + (if P t then 1 else 0)"
proof (induction xs arbitrary: i)
  case Nil
  then show ?case by simp
next
  case (Cons x xs)
  show ?case
  proof (cases i)
    case 0
    then show ?thesis by simp
  next
    case (Suc j)
    with Cons.prems have "j < length xs" by simp
    from Cons.IH[OF this] Suc show ?thesis by (auto split: if_splits)
  qed
qed

lemma admitted_setTask:
  "i < length (tasks s) \<Longrightarrow>
     int (admitted (setTask i t s)) =
       int (admitted s) - (if holding (tasks s ! i) then 1 else 0) + (if holding t then 1 else 0)"
  by (simp add: admitted_def setTask_def count_update)

lemma executing_holding: "executing t \<Longrightarrow> holding t"
  by (cases t) (simp_all add: executing_def holding_def)

lemma inFlight_le_admitted: "inFlight s \<le> admitted s"
proof -
  have "length (filter executing xs) \<le> length (filter holding xs)" for xs
    by (induction xs) (auto dest: executing_holding)
  then show ?thesis by (simp add: inFlight_def admitted_def)
qed

subsection \<open>The shape of the state under the updates of the machine\<close>

lemma wellFormed_fields [simp]:
  "wellFormed config (s\<lparr>clock := t\<rparr>) = wellFormed config s"
  "wellFormed config (s\<lparr>timedOut := b\<rparr>) = wellFormed config s"
  "wellFormed config (s\<lparr>allRejected := a\<rparr>) = wellFormed config s"
  "wellFormed config (s\<lparr>stage := g\<rparr>) = wellFormed config s"
  by (simp_all add: wellFormed_def)

lemma wellFormed_setTask:
  assumes "wellFormed config s" "i < length (jobs config)" "tasks s ! i \<noteq> Finished"
    "i \<notin> set (queue (sem s))"
  shows "wellFormed config (setTask i t s)"
proof -
  from assms have "\<forall>r \<in> set (collected s). res_index r - 1 \<noteq> i"
    by (auto simp: wellFormed_def)
  with assms show ?thesis
    by (auto simp: wellFormed_def setTask_def nth_list_update)
qed

lemma wellFormed_finish:
  assumes "wellFormed config s" "i < length (jobs config)" "tasks s ! i \<noteq> Finished"
    "i \<notin> set (queue (sem s))" "res_index r = i + 1"
  shows "wellFormed config (setTask i Finished (pushResult r s))"
proof -
  from assms have other: "\<forall>r' \<in> set (collected s). res_index r' - 1 \<noteq> i \<and> 1 \<le> res_index r'"
    by (auto simp: wellFormed_def)
  then have "i + 1 \<notin> res_index ` set (collected s)"
    by force
  with assms other show ?thesis
    by (auto simp: wellFormed_def setTask_def pushResult_def nth_list_update)
qed

lemma wellFormed_rejectJob:
  assumes "wellFormed config s" "i < length (jobs config)" "tasks s ! i \<noteq> Finished"
    "i \<notin> set (queue (sem s))"
  shows "wellFormed config (rejectJob i e s)"
  using wellFormed_setTask[OF assms] by (simp add: rejectJob_def)

lemma wellFormed_sem:
  assumes "wellFormed config s" "distinct (queue sm)" "set (queue sm) \<subseteq> set (queue (sem s))"
  shows "wellFormed config (s\<lparr>sem := sm\<rparr>)"
  using assms by (auto simp: wellFormed_def)

subsection \<open>The permits under the updates of the machine\<close>

lemma accounted_fields [simp]:
  "accounted config c (s\<lparr>clock := t\<rparr>) = accounted config c s"
  "accounted config c (s\<lparr>timedOut := b\<rparr>) = accounted config c s"
  "accounted config c (s\<lparr>allRejected := a\<rparr>) = accounted config c s"
  "accounted config c (s\<lparr>stage := g\<rparr>) = accounted config c s"
  "accounted config c (pushResult r s) = accounted config c s"
  by (simp_all add: accounted_def admitted_def pushResult_def)

lemma accounted_setTask:
  assumes "accounted config c s" "i < length (tasks s)"
  shows "accounted config
           (c - (if holding (tasks s ! i) then 1 else 0) + (if holding t then 1 else 0))
           (setTask i t s)"
proof -
  have "sem (setTask i t s) = sem s" by (simp add: setTask_def)
  with assms admitted_setTask[OF assms(2), of t] show ?thesis
    by (simp add: accounted_def)
qed

lemma accounted_rejectJob:
  assumes "accounted config c s" "i < length (tasks s)"
  shows "accounted config (c - (if holding (tasks s ! i) then 1 else 0)) (rejectJob i e s)"
  using accounted_setTask[OF assms, of "Rejected e"] by (simp add: rejectJob_def holding_def)

subsection \<open>The origins under the updates of the machine\<close>

lemma traced_fields [simp]:
  "traced path config options (s\<lparr>clock := t\<rparr>) = traced path config options s"
  "traced path config options (s\<lparr>timedOut := b\<rparr>) = traced path config options s"
  "traced path config options (s\<lparr>sem := sm\<rparr>) = traced path config options s"
  by (simp_all add: traced_def)

lemma traced_setTask:
  assumes "traced path config options s"
    and "\<And>p. t = Resolving p \<Longrightarrow>
           resolveOutputPath path (jobs config ! i) i (outputDirOf config)
             (allowAnyPathOf options) = Inr p"
    and "\<And>u t0. t = Running u t0 \<Longrightarrow>
           \<exists>p fileExists.
             resolveOutputPath path (jobs config ! i) i (outputDirOf config)
               (allowAnyPathOf options) = Inr p
             \<and> generateUniqueFilePath path fileExists p = Some u"
  shows "traced path config options (setTask i t s)"
  unfolding traced_def setTask_def
proof (intro conjI allI impI ballI, goal_cases)
  case (1 e)
  with assms(1) show ?case by (simp add: traced_def)
next
  case (2 e)
  with assms(1) show ?case by (simp add: traced_def)
next
  case (3 r)
  with assms(1) show ?case by (simp add: traced_def)
next
  case (4 j p)
  show ?case
  proof (cases "j = i \<and> i < length (tasks s)")
    case True
    with 4 have "t = Resolving p" by simp
    with assms(2) True show ?thesis by simp
  next
    case False
    with 4 have "tasks s ! j = Resolving p"
      by (cases "i < length (tasks s)") (auto simp: nth_list_update list_update_beyond)
    with assms(1) 4 show ?thesis by (simp add: traced_def)
  qed
next
  case (5 j u t0)
  show ?case
  proof (cases "j = i \<and> i < length (tasks s)")
    case True
    with 5 have "t = Running u t0" by simp
    with assms(3) True show ?thesis by simp
  next
    case False
    with 5 have "tasks s ! j = Running u t0"
      by (cases "i < length (tasks s)") (auto simp: nth_list_update list_update_beyond)
    with assms(1) 5 show ?thesis unfolding traced_def by blast
  qed
next
  case (6 b)
  with assms(1) show ?case by (simp add: traced_def)
qed

lemma traced_pushResult:
  assumes "traced path config options s" "genuine config r"
  shows "traced path config options (pushResult r s)"
  using assms by (simp add: traced_def pushResult_def)

lemma traced_rejectJob:
  assumes "traced path config options s" "pathFails path config options e"
  shows "traced path config options (rejectJob i e s)"
proof -
  have "traced path config options (setTask i (Rejected e) s)"
    using assms(1) by (rule traced_setTask) simp_all
  with assms show ?thesis
    by (auto simp: rejectJob_def traced_def split: option.splits)
qed

subsection \<open>The job function keeps the invariant\<close>

lemma consistentD:
  assumes "consistent path config options c s"
  shows "wellFormed config s" "accounted config c s" "traced path config options s"
    "length (tasks s) = length (jobs config)"
  using assms by (simp_all add: consistent_def wellFormed_def)

lemma waiter_waits:
  "wellFormed config s \<Longrightarrow> w \<in> set (queue (sem s)) \<Longrightarrow>
     w < length (jobs config) \<and> tasks s ! w = Waiting"
  by (simp add: wellFormed_def)

lemma res_index_cancelledResult [simp]: "res_index (cancelledResult job i reason) = i + 1"
  by (simp add: cancelledResult_def)

lemma consistent_enter:
  assumes c: "consistent path config options c s"
    and i: "i < length (jobs config)"
    and nq: "i \<notin> set (queue (sem s))"
    and nf: "tasks s ! i \<noteq> Finished"
    and e: "enter path config options i s = (s', flag)"
  shows "consistent path config options
           (c - (if holding (tasks s ! i) then 1 else 0) + (if flag then 1 else 0)) s'"
proof -
  note d = consistentD[OF c]
  let ?job = "jobs config ! i"
  let ?r = "cancelledResult ?job i ''Batch timed out before job started''"
  let ?res = "resolveOutputPath path ?job i (outputDirOf config) (allowAnyPathOf options)"
  from d(4) i have it: "i < length (tasks s)" by simp
  show ?thesis
  proof (cases "timedOut s")
    case True
    with e have s': "s' = setTask i Finished (pushResult ?r s)" and f: "\<not> flag"
      by (simp_all add: enter_def Let_def)
    have "wellFormed config s'"
      unfolding s' using d(1) i nf nq by (rule wellFormed_finish) simp
    moreover have "accounted config (c - (if holding (tasks s ! i) then 1 else 0)) s'"
    proof -
      have "accounted config c (pushResult ?r s)" using d(2) by simp
      moreover have "i < length (tasks (pushResult ?r s))" using it by (simp add: pushResult_def)
      ultimately have "accounted config
          (c - (if holding (tasks (pushResult ?r s) ! i) then 1 else 0)
             + (if holding Finished then 1 else 0)) s'"
        unfolding s' by (rule accounted_setTask)
      then show ?thesis by (simp add: pushResult_def holding_def)
    qed
    moreover have "traced path config options s'"
    proof -
      have "genuine config ?r" using i by (auto simp: genuine_def)
      with d(3) have "traced path config options (pushResult ?r s)"
        by (rule traced_pushResult)
      then show ?thesis unfolding s' by (rule traced_setTask) simp_all
    qed
    ultimately show ?thesis using f by (simp add: consistent_def)
  next
    case live: False
    show ?thesis
    proof (cases ?res)
      case (Inl msg)
      with live e have s': "s' = rejectJob i msg s" and f: "\<not> flag"
        by (simp_all add: enter_def Let_def)
      have "wellFormed config s'"
        unfolding s' using d(1) i nf nq by (rule wellFormed_rejectJob)
      moreover have "accounted config (c - (if holding (tasks s ! i) then 1 else 0)) s'"
        unfolding s' using d(2) it by (rule accounted_rejectJob)
      moreover have "traced path config options s'"
      proof -
        from Inl i have "pathFails path config options msg" by (auto simp: pathFails_def)
        with d(3) show ?thesis unfolding s' by (rule traced_rejectJob)
      qed
      ultimately show ?thesis using f by (simp add: consistent_def)
    next
      case (Inr p)
      with live e have s': "s' = setTask i (Resolving p) s" and f: "flag"
        by (simp_all add: enter_def Let_def)
      have "wellFormed config s'"
        unfolding s' using d(1) i nf nq by (rule wellFormed_setTask)
      moreover have "accounted config
          (c - (if holding (tasks s ! i) then 1 else 0) + (if holding (Resolving p) then 1 else 0)) s'"
        unfolding s' using d(2) it by (rule accounted_setTask)
      moreover have "traced path config options s'"
        unfolding s' using d(3) by (rule traced_setTask) (simp_all add: Inr)
      ultimately show ?thesis using f by (simp add: consistent_def holding_def)
    qed
  qed
qed

lemma finallyRelease_empty:
  "queue (sem s) = [] \<Longrightarrow>
     finallyRelease path config options s = s\<lparr>sem := (sem s)\<lparr>permits := permits (sem s) + 1\<rparr>\<rparr>"
  by (subst finallyRelease.simps) (simp add: release_def)

lemma finallyRelease_wake:
  "queue (sem s) = w # q \<Longrightarrow>
     finallyRelease path config options s =
       (case enter path config options w (s\<lparr>sem := (sem s)\<lparr>queue := q\<rparr>\<rparr>) of
          (s', True) \<Rightarrow> s'
        | (s', False) \<Rightarrow> finallyRelease path config options s')"
  by (subst finallyRelease.simps) (simp add: release_def)

lemma consistent_finallyRelease:
  "length (queue (sem s)) = n \<Longrightarrow> consistent path config options (c - 1) s \<Longrightarrow>
     consistent path config options c (finallyRelease path config options s)"
proof (induction n arbitrary: s)
  case 0
  then have q: "queue (sem s) = []" by simp
  note d = consistentD[OF "0.prems"(2)]
  have "wellFormed config (s\<lparr>sem := (sem s)\<lparr>permits := permits (sem s) + 1\<rparr>\<rparr>)"
    using d(1) by (rule wellFormed_sem) (simp_all add: q)
  moreover have "accounted config c (s\<lparr>sem := (sem s)\<lparr>permits := permits (sem s) + 1\<rparr>\<rparr>)"
    using d(2) by (simp add: accounted_def admitted_def)
  ultimately show ?case
    using d(3) by (simp add: finallyRelease_empty[OF q] consistent_def)
next
  case (Suc n)
  then obtain w q where q: "queue (sem s) = w # q" and lq: "length q = n"
    by (cases "queue (sem s)") auto
  note d = consistentD[OF Suc.prems(2)]
  let ?s1 = "s\<lparr>sem := (sem s)\<lparr>queue := q\<rparr>\<rparr>"
  from d(1) q have w: "w < length (jobs config)" "tasks s ! w = Waiting" "w \<notin> set q"
    by (auto simp: wellFormed_def)
  have c1: "consistent path config options (c - 1) ?s1"
  proof -
    have "wellFormed config ?s1"
      using d(1) by (rule wellFormed_sem) (use d(1) q in \<open>auto simp: wellFormed_def\<close>)
    moreover have "accounted config (c - 1) ?s1"
      using d(2) by (simp add: accounted_def admitted_def)
    ultimately show ?thesis using d(3) by (simp add: consistent_def)
  qed
  obtain s' flag where e: "enter path config options w ?s1 = (s', flag)"
    by (cases "enter path config options w ?s1")
  have "consistent path config options
      (c - 1 - (if holding (tasks ?s1 ! w) then 1 else 0) + (if flag then 1 else 0)) s'"
    using c1 w(1) _ _ e by (rule consistent_enter) (use w in simp_all)
  with w have c2: "consistent path config options (c - 1 + (if flag then 1 else 0)) s'"
    by (simp add: holding_def)
  show ?case
  proof (cases flag)
    case True
    with c2 e show ?thesis by (simp add: finallyRelease_wake[OF q])
  next
    case False
    have "sem s' = sem (fst (enter path config options w ?s1))" using e by simp
    then have "length (queue (sem s')) = n" using lq by (simp add: enter_sem)
    from Suc.IH[OF this] c2 False
    have "consistent path config options c (finallyRelease path config options s')" by simp
    with False e show ?thesis by (simp add: finallyRelease_wake[OF q])
  qed
qed

lemma consistent_afterAcquire:
  assumes c: "consistent path config options c s" and i: "i < length (jobs config)"
  shows "consistent path config options c (afterAcquire path config options s i)"
proof (cases "tasks s ! i = Admitted")
  case False
  with c show ?thesis by (simp add: afterAcquire_def)
next
  case True
  note d = consistentD[OF c]
  from d(1) True have nq: "i \<notin> set (queue (sem s))"
    by (auto dest: waiter_waits)
  obtain s' flag where e: "enter path config options i s = (s', flag)"
    by (cases "enter path config options i s")
  have "consistent path config options
      (c - (if holding (tasks s ! i) then 1 else 0) + (if flag then 1 else 0)) s'"
    using c i nq _ e by (rule consistent_enter) (simp add: True)
  with True have c2: "consistent path config options (c - 1 + (if flag then 1 else 0)) s'"
    by (simp add: holding_def)
  show ?thesis
  proof (cases flag)
    case True
    with c2 e \<open>tasks s ! i = Admitted\<close> show ?thesis by (simp add: afterAcquire_def)
  next
    case False
    with c2 have "consistent path config options c (finallyRelease path config options s')"
      by (simp add: consistent_finallyRelease[OF refl])
    with False e \<open>tasks s ! i = Admitted\<close> show ?thesis by (simp add: afterAcquire_def)
  qed
qed

lemma consistent_afterAcquire_all:
  "\<forall>i \<in> set js. i < length (jobs config) \<Longrightarrow> consistent path config options c s \<Longrightarrow>
     consistent path config options c (foldl (afterAcquire path config options) s js)"
  by (induction js arbitrary: s) (simp_all add: consistent_afterAcquire)

subsection \<open>The caller keeps the invariant\<close>

lemma consistent_launch:
  assumes c: "consistent path config options c s" and i: "i < length (jobs config)"
    and below: "\<forall>j \<in> set (queue (sem s)). j < i"
    and rest: "\<forall>j. i \<le> j \<and> j < length (jobs config) \<longrightarrow> tasks s ! j = Waiting"
  shows "consistent path config options c (launch s i)
         \<and> (\<forall>j \<in> set (queue (sem (launch s i))). j < Suc i)
         \<and> (\<forall>j. Suc i \<le> j \<and> j < length (jobs config) \<longrightarrow> tasks (launch s i) ! j = Waiting)"
proof -
  note d = consistentD[OF c]
  from below have nq: "i \<notin> set (queue (sem s))" by auto
  from rest i have wi: "tasks s ! i = Waiting" by simp
  show ?thesis
  proof (cases "permits (sem s) > 0")
    case True
    let ?s1 = "s\<lparr>sem := (sem s)\<lparr>permits := permits (sem s) - 1\<rparr>\<rparr>"
    from True have l: "launch s i = setTask i Admitted ?s1"
      by (simp add: launch_def acquire_def)
    have wf1: "wellFormed config ?s1"
      using d(1) by (rule wellFormed_sem) (use d(1) in \<open>simp_all add: wellFormed_def\<close>)
    have "wellFormed config (setTask i Admitted ?s1)"
      using wf1 i by (rule wellFormed_setTask) (use wi nq in simp_all)
    moreover have "accounted config c (setTask i Admitted ?s1)"
    proof -
      have "accounted config (c - 1) ?s1"
        using d(2) True by (simp add: accounted_def admitted_def)
      moreover have "i < length (tasks ?s1)" using d(4) i by simp
      ultimately have "accounted config
          (c - 1 - (if holding (tasks ?s1 ! i) then 1 else 0)
             + (if holding Admitted then 1 else 0)) (setTask i Admitted ?s1)"
        by (rule accounted_setTask)
      with wi show ?thesis by (simp add: holding_def)
    qed
    moreover have "traced path config options (setTask i Admitted ?s1)"
      by (rule traced_setTask) (use d(3) in simp_all)
    moreover have "\<forall>j \<in> set (queue (sem (setTask i Admitted ?s1))). j < Suc i"
      using below by (auto simp: setTask_def)
    moreover have "\<forall>j. Suc i \<le> j \<and> j < length (jobs config) \<longrightarrow>
        tasks (setTask i Admitted ?s1) ! j = Waiting"
      using rest by (auto simp: setTask_def nth_list_update)
    ultimately show ?thesis by (simp add: l consistent_def)
  next
    case False
    let ?s1 = "s\<lparr>sem := (sem s)\<lparr>queue := queue (sem s) @ [i]\<rparr>\<rparr>"
    from False have l: "launch s i = ?s1"
      by (simp add: launch_def acquire_def)
    have "wellFormed config ?s1"
      using d(1) i wi nq by (auto simp: wellFormed_def)
    moreover have "accounted config c ?s1"
      using d(2) by (simp add: accounted_def admitted_def)
    moreover have "\<forall>j \<in> set (queue (sem ?s1)). j < Suc i"
      using below by auto
    moreover have "\<forall>j. Suc i \<le> j \<and> j < length (jobs config) \<longrightarrow> tasks ?s1 ! j = Waiting"
      using rest by simp
    ultimately show ?thesis using d(3) by (simp add: l consistent_def)
  qed
qed

lemma consistent_launch_all:
  assumes c: "consistent path config options c s0" and q: "queue (sem s0) = []"
    and w: "\<forall>j < length (jobs config). tasks s0 ! j = Waiting"
  shows "m \<le> length (jobs config) \<Longrightarrow>
     consistent path config options c (foldl launch s0 [0..<m])
     \<and> (\<forall>j \<in> set (queue (sem (foldl launch s0 [0..<m]))). j < m)
     \<and> (\<forall>j. m \<le> j \<and> j < length (jobs config) \<longrightarrow> tasks (foldl launch s0 [0..<m]) ! j = Waiting)"
proof (induction m)
  case 0
  with c q w show ?case by simp
next
  case (Suc m)
  then have m: "m < length (jobs config)" and
    ih: "consistent path config options c (foldl launch s0 [0..<m])"
      "\<forall>j \<in> set (queue (sem (foldl launch s0 [0..<m]))). j < m"
      "\<forall>j. m \<le> j \<and> j < length (jobs config) \<longrightarrow> tasks (foldl launch s0 [0..<m]) ! j = Waiting"
    by simp_all
  from consistent_launch[OF ih(1) m ih(2) ih(3)] show ?case by simp
qed

lemma consistent_settle:
  assumes "consistent path config options c s"
  shows "consistent path config options c (settle config s)"
proof -
  note d = consistentD[OF assms]
  have "traced path config options (settle config s)"
    unfolding settle_def using d(1,3)
    by (auto simp: traced_def split: option.splits)
  moreover have "wellFormed config (settle config s)"
    using d(1) by (simp add: settle_def split: option.splits)
  moreover have "accounted config c (settle config s)"
    using d(2) by (simp add: settle_def split: option.splits)
  ultimately show ?thesis by (simp add: consistent_def)
qed

lemma consistent_init:
  "consistent path config options (maxConcurrentOf config) (init path config options)"
proof -
  let ?n = "length (jobs config)"
  let ?s0 = "\<lparr>clock = 0, sem = newSemaphore (maxConcurrentOf config),
      tasks = replicate ?n Waiting, collected = [], timedOut = False,
      allRejected = None, stage = Racing\<rparr>"
  have "filter holding (replicate ?n Waiting) = []"
    by (simp add: holding_def)
  then have "consistent path config options (maxConcurrentOf config) ?s0"
    by (simp add: consistent_def wellFormed_def accounted_def traced_def admitted_def
          newSemaphore_def)
  from consistent_launch_all[OF this, of ?n]
  have "consistent path config options (maxConcurrentOf config) (foldl launch ?s0 [0..<?n])"
    by (simp add: newSemaphore_def)
  then have "consistent path config options (maxConcurrentOf config)
      (foldl (afterAcquire path config options) (foldl launch ?s0 [0..<?n]) [0..<?n])"
    by (intro consistent_afterAcquire_all) simp_all
  then show ?thesis
    by (simp add: init_def Let_def consistent_settle)
qed

lemma res_index_executeJobWithRetry:
  "executeJobWithRetry rp job i t0 script = Some (r, fin, rest) \<Longrightarrow> res_index r = i + 1"
  using retryLoop_elapsed[of rp job i t0 0 t0 script r fin rest]
  by (simp add: executeJobWithRetry_def)

lemma consistent_pathChecked:
  assumes c: "consistent path config options c s"
  shows "consistent path config options c (pathChecked path i fileExists s)"
proof (cases "i < length (tasks s)")
  case False
  with c show ?thesis by (simp add: pathChecked_def)
next
  case it: True
  note d = consistentD[OF c]
  from it d(4) have i: "i < length (jobs config)" by simp
  show ?thesis
  proof (cases "tasks s ! i")
    case (Resolving p)
    show ?thesis
    proof (cases "generateUniqueFilePath path fileExists p")
      case None
      with Resolving it c show ?thesis by (simp add: pathChecked_def)
    next
      case (Some u)
      let ?s1 = "setTask i (Running u (clock s)) s"
      from Some Resolving it have l: "pathChecked path i fileExists s = ?s1"
        by (simp add: pathChecked_def)
      from d(1) Resolving have nq: "i \<notin> set (queue (sem s))"
        by (auto dest: waiter_waits)
      from d(3) i Resolving have res:
        "resolveOutputPath path (jobs config ! i) i (outputDirOf config)
           (allowAnyPathOf options) = Inr p"
        by (simp add: traced_def)
      have "wellFormed config ?s1"
        using d(1) i _ nq by (rule wellFormed_setTask) (simp add: Resolving)
      moreover have "accounted config c ?s1"
        using accounted_setTask[OF d(2) it, of "Running u (clock s)"] Resolving
        by (simp add: holding_def)
      moreover have "traced path config options ?s1"
        using d(3) by (rule traced_setTask) (use res Some in auto)
      ultimately show ?thesis by (simp add: l consistent_def)
    qed
  qed (use c it in \<open>simp_all add: pathChecked_def\<close>)
qed

lemma consistent_jobSettled:
  assumes c: "consistent path config options c s"
  shows "consistent path config options c (jobSettled path config options i script s)"
proof (cases "i < length (tasks s)")
  case False
  with c show ?thesis by (simp add: jobSettled_def)
next
  case it: True
  note d = consistentD[OF c]
  from it d(4) have i: "i < length (jobs config)" by simp
  show ?thesis
  proof (cases "tasks s ! i")
    case (Running u t0)
    let ?run = "executeJobWithRetry (retryPolicyOf config) (jobs config ! i) i t0 script"
    show ?thesis
    proof (cases ?run)
      case None
      with Running it c show ?thesis by (simp add: jobSettled_def)
    next
      case (Some triple)
      then obtain r fin rest where run: "?run = Some (r, fin, rest)"
        by (cases triple) auto
      show ?thesis
      proof (cases "fin = clock s")
        case False
        with run Running it c show ?thesis by (simp add: jobSettled_def)
      next
        case True
        let ?s1 = "setTask i Finished (pushResult r s)"
        from True run Running it have l: "jobSettled path config options i script s =
            settle config (finallyRelease path config options ?s1)"
          by (simp add: jobSettled_def)
        from d(1) Running have nq: "i \<notin> set (queue (sem s))"
          by (auto dest: waiter_waits)
        have "wellFormed config ?s1"
          using d(1) i _ nq by (rule wellFormed_finish)
            (simp_all add: Running res_index_executeJobWithRetry[OF run])
        moreover have "accounted config (c - 1) ?s1"
        proof -
          have "accounted config c (pushResult r s)" using d(2) by simp
          moreover have "i < length (tasks (pushResult r s))"
            using it by (simp add: pushResult_def)
          ultimately have "accounted config
              (c - (if holding (tasks (pushResult r s) ! i) then 1 else 0)
                 + (if holding Finished then 1 else 0)) ?s1"
            by (rule accounted_setTask)
          with Running show ?thesis by (simp add: pushResult_def holding_def)
        qed
        moreover have "traced path config options ?s1"
        proof -
          from run i have "genuine config r" by (auto simp: genuine_def)
          with d(3) have "traced path config options (pushResult r s)"
            by (rule traced_pushResult)
          then show ?thesis by (rule traced_setTask) simp_all
        qed
        ultimately have "consistent path config options (c - 1) ?s1"
          by (simp add: consistent_def)
        then have "consistent path config options c (finallyRelease path config options ?s1)"
          by (rule consistent_finallyRelease[OF refl])
        then show ?thesis by (simp add: l consistent_settle)
      qed
    qed
  qed (use c it in \<open>simp_all add: jobSettled_def\<close>)
qed

lemma consistent_timerFires:
  assumes "consistent path config options c s"
  shows "consistent path config options c (timerFires config s)"
proof -
  note d = consistentD[OF assms]
  have "traced path config options (timerFires config s)"
    using d(3) by (auto simp: timerFires_def traced_def)
  with d(1,2) show ?thesis by (simp add: timerFires_def consistent_def)
qed

lemma consistent_graceOver:
  assumes "consistent path config options c s"
  shows "consistent path config options c (graceOver config s)"
proof -
  note d = consistentD[OF assms]
  have "traced path config options (graceOver config s)"
    using d(1,3) by (auto simp: graceOver_def traced_def split: Stage.splits)
  moreover have "wellFormed config (graceOver config s)"
    using d(1) by (simp add: graceOver_def split: Stage.splits)
  moreover have "accounted config c (graceOver config s)"
    using d(2) by (simp add: graceOver_def split: Stage.splits)
  ultimately show ?thesis by (simp add: consistent_def)
qed

lemma consistent_step:
  assumes "consistent path config options c s"
  shows "consistent path config options c (step path config options s e)"
proof (cases e)
  case (Tick d)
  with assms show ?thesis by (simp add: consistent_def)
next
  case (PathChecked i fileExists)
  with assms show ?thesis by (simp add: consistent_pathChecked)
next
  case (JobSettled i script)
  with assms show ?thesis by (simp add: consistent_jobSettled)
next
  case Timeout
  with assms show ?thesis by (simp add: consistent_timerFires)
next
  case GraceOver
  with assms show ?thesis by (simp add: consistent_graceOver)
qed

lemma consistent_steps:
  "consistent path config options c s \<Longrightarrow>
     consistent path config options c (foldl (step path config options) s events)"
  by (induction events arbitrary: s) (simp_all add: consistent_step)

lemma consistent_executeBatch:
  "consistent path config options (maxConcurrentOf config)
     (executeBatch path config options events)"
  by (simp add: executeBatch_def consistent_steps consistent_init)

subsection \<open>The report\<close>

lemma status_partition:
  "length (filter (\<lambda>r. res_status r = Completed) rs)
     + length (filter (\<lambda>r. res_status r = Failed) rs)
     + length (filter (\<lambda>r. res_status r = Cancelled) rs) = length rs"
proof (induction rs)
  case Nil
  show ?case by simp
next
  case (Cons r rs)
  then show ?case by (cases "res_status r") simp_all
qed

text \<open>The outcomes before the sort: those recorded, then those synthesized.\<close>

definition unsorted :: "BatchConfig \<Rightarrow> State \<Rightarrow> BatchJobResult list" where
  "unsorted config s =
     collected s @
     map (\<lambda>i. cancelledResult (jobs config ! i) i ''Batch timed out or cancelled'')
       (filter (\<lambda>i. i + 1 \<notin> set (map res_index (collected s))) [0..<length (jobs config)])"

lemma results_finalize: "results (finalize config s) = sort_key res_index (unsorted config s)"
  by (simp add: finalize_def unsorted_def Let_def)

lemma unsorted_indices:
  assumes "wellFormed config s"
  shows "distinct (map res_index (unsorted config s))"
    and "set (map res_index (unsorted config s)) = {1..<length (jobs config) + 1}"
proof -
  let ?n = "length (jobs config)"
  let ?missing = "filter (\<lambda>i. i + 1 \<notin> set (map res_index (collected s))) [0..<?n]"
  have idx: "map res_index (unsorted config s) =
      map res_index (collected s) @ map Suc ?missing"
    by (simp add: unsorted_def comp_def)
  have "distinct (map Suc ?missing)"
    by (simp add: distinct_map)
  moreover have "set (map res_index (collected s)) \<inter> set (map Suc ?missing) = {}"
    by force
  ultimately show "distinct (map res_index (unsorted config s))"
    using assms by (simp add: idx wellFormed_def)
  have "set (map res_index (collected s)) \<subseteq> {1..<?n + 1}"
    using assms by (auto simp: wellFormed_def)
  moreover have "set (map Suc ?missing) \<subseteq> {1..<?n + 1}"
    by auto
  moreover have "k \<in> set (map res_index (collected s)) \<union> set (map Suc ?missing)"
    if "k \<in> {1..<?n + 1}" for k
  proof (cases "k \<in> set (map res_index (collected s))")
    case True
    then show ?thesis by simp
  next
    case False
    from that obtain i where "k = Suc i" "i < ?n"
      by (cases k) auto
    with False have "i \<in> set ?missing" by simp
    with \<open>k = Suc i\<close> show ?thesis by (simp del: set_filter)
  qed
  ultimately show "set (map res_index (unsorted config s)) = {1..<?n + 1}"
    unfolding idx set_append by blast
qed

lemma finalize_indices:
  assumes "wellFormed config s"
  shows "map res_index (results (finalize config s)) = [1..<length (jobs config) + 1]"
proof -
  let ?all = "unsorted config s"
  let ?sorted = "sort_key res_index ?all"
  note u = unsorted_indices[OF assms]
  from u(1) have "distinct ?all" "inj_on res_index (set ?all)"
    by (simp_all add: distinct_map)
  then have "distinct (map res_index ?sorted)"
    by (simp add: distinct_map)
  moreover have "sorted (map res_index ?sorted)"
    by (rule sorted_sort_key)
  moreover have "set (map res_index ?sorted) = set [1..<length (jobs config) + 1]"
    using u(2) by (simp del: upt_Suc)
  ultimately have "map res_index ?sorted = [1..<length (jobs config) + 1]"
    by (intro sorted_distinct_set_unique) (simp_all del: upt_Suc)
  then show ?thesis by (simp add: results_finalize)
qed

lemma finalize_counts:
  "total (finalize config s) = length (jobs config)"
  "succeeded (finalize config s) + failed (finalize config s) + cancelled (finalize config s) =
     length (results (finalize config s))"
  "succeeded (finalize config s) =
     length (filter (\<lambda>r. res_status r = Completed) (results (finalize config s)))"
  "failed (finalize config s) =
     length (filter (\<lambda>r. res_status r = Failed) (results (finalize config s)))"
  "cancelled (finalize config s) =
     length (filter (\<lambda>r. res_status r = Cancelled) (results (finalize config s)))"
  by (simp_all add: finalize_def Let_def status_partition)

lemma finalize_length:
  assumes "wellFormed config s"
  shows "length (results (finalize config s)) = length (jobs config)"
proof -
  have "length (results (finalize config s)) =
      length (map res_index (results (finalize config s)))"
    by simp
  also have "\<dots> = length (jobs config)"
    by (simp only: finalize_indices[OF assms] length_upt add_diff_cancel_right')
  finally show ?thesis .
qed

text \<open>The entry of the report at a position: the recorded outcome, else the synthesized one.\<close>

lemma finalize_nth:
  assumes wf: "wellFormed config s" and i: "i < length (jobs config)"
  shows "r \<in> set (collected s) \<Longrightarrow> res_index r = i + 1 \<Longrightarrow>
           results (finalize config s) ! i = r"
    and "\<forall>r \<in> set (collected s). res_index r \<noteq> i + 1 \<Longrightarrow>
           results (finalize config s) ! i =
             cancelledResult (jobs config ! i) i ''Batch timed out or cancelled''"
proof -
  let ?rs = "results (finalize config s)"
  let ?x = "?rs ! i"
  note u = unsorted_indices[OF wf]
  from u(1) have inj: "inj_on res_index (set (unsorted config s))"
    by (simp add: distinct_map)
  have len: "i < length ?rs" using finalize_length[OF wf] i by simp
  then have mem: "?x \<in> set (unsorted config s)"
    using nth_mem[OF len] by (simp add: results_finalize)
  have "res_index ?x = map res_index ?rs ! i" using len by simp
  also have "\<dots> = i + 1"
    using i by (simp only: finalize_indices[OF wf]) (simp del: upt_Suc)
  finally have ix: "res_index ?x = i + 1" .
  {
    assume r: "r \<in> set (collected s)" "res_index r = i + 1"
    then have "r \<in> set (unsorted config s)" by (simp add: unsorted_def)
    with inj mem ix r(2) show "?x = r" by (simp add: inj_on_def)
  }
  {
    assume none: "\<forall>r \<in> set (collected s). res_index r \<noteq> i + 1"
    let ?c = "cancelledResult (jobs config ! i) i ''Batch timed out or cancelled''"
    from none i have "?c \<in> set (unsorted config s)"
      by (force simp: unsorted_def)
    moreover have "res_index ?c = i + 1" by simp
    ultimately show "?x = ?c" using inj mem ix by (simp add: inj_on_def)
  }
qed

lemma returned_from:
  assumes "stage (executeBatch path config options events) = Returned b"
  shows "\<exists>s0. wellFormed config s0 \<and> (\<forall>r \<in> set (collected s0). genuine config r)
           \<and> b = finalize config s0"
  using consistentD(3)[OF consistent_executeBatch, of path config options events] assms
  by (simp add: traced_def)

section \<open>The worked runs\<close>

lemma digits:
  "digitsOf 1 = ''1''" "digitsOf 2 = ''2''" "digitsOf 3 = ''3''"
  "digitsOf (Suc 0) = ''1''" "digitsOf (Suc (Suc 0)) = ''2''" "digitsOf (Suc (Suc (Suc 0))) = ''3''"
  by code_simp+

lemmas settings_defs =
  maxConcurrentOf_def timeoutOf_def outputDirOf_def allowAnyPathOf_def jsOr_def strOr_def
  truthyStr_def BATCH_DEFAULTS_max_concurrent_def BATCH_DEFAULTS_timeout_def noOptions_def
  plainConfig_def textJob_def

lemmas init_defs =
  init_def launch_def acquire_def newSemaphore_def afterAcquire_def enter_def settle_def
  setTask_def pushResult_def rejectJob_def resolveOutputPath_def posix_def Let_def
  upt_conv_Cons digits

lemma retryPolicyOf_plain: "retry_policy config = None \<Longrightarrow> retryPolicyOf config = rp2"
  by (simp add: retryPolicyOf_def rp2_def nullish_def BATCH_DEFAULTS_retry_max_retries_def
        BATCH_DEFAULTS_retry_delay_ms_def)

lemma run_denied:
  "executeJobWithRetry rp2 job i t0 [failing ''Access denied.''] =
     Some (failedResult job i ''Access denied.'' 300, t0 + 300, [])"
  by (simp add: executeJobWithRetry_def Let_def rp2_fields failing_fields shouldRetry_examples)

lemma run_succeeding:
  "executeJobWithRetry rp2 job i t0 [succeeding] =
     Some (completedResult job i video1 9000, t0 + 9000, [])"
  by (simp add: executeJobWithRetry_def Let_def rp2_fields succeeding_fields)

lemma threeJobs_fields:
  "retry_policy threeJobs = None"
  "jobs threeJobs = [textJob ''a cat'' None, textJob ''a dog'' None, textJob ''a bird'' None]"
  "outputDirOf threeJobs = ''out''" "allowAnyPathOf noOptions = False"
  "maxConcurrentOf threeJobs = 2"
  by (simp_all add: threeJobs_def settings_defs)

lemma threeJobs_init: "init (posix ''/home/u'') threeJobs noOptions = threeJobs0"
  by (simp add: init_defs settings_defs threeJobs_def threeJobs0_def)

lemma threeJobs_run2:
  "executeBatch (posix ''/home/u'') threeJobs noOptions firstChecks =
   threeJobs0\<lparr>tasks :=
     [Running ''out/generated_1.mp4'' 0, Running ''out/generated_2.mp4'' 0, Waiting]\<rparr>"
  by (simp add: executeBatch_def threeJobs_init threeJobs0_def pathChecked_def
        generateUniqueFilePath_def noFile_def setTask_def firstChecks_def)

lemma threeJobs_run4:
  "executeBatch (posix ''/home/u'') threeJobs noOptions
     [PathChecked 0 noFile, PathChecked 1 noFile, Tick 300,
      JobSettled 1 [failing ''Access denied.'']] =
   \<lparr>clock = 300, sem = \<lparr>permits = 0, queue = []\<rparr>,
     tasks = [Running ''out/generated_1.mp4'' 0, Finished, Resolving ''out/generated_3.mp4''],
     collected = [failedResult (textJob ''a dog'' None) 1 ''Access denied.'' 300],
     timedOut = False, allRejected = None, stage = Racing\<rparr>"
  using threeJobs_run2
  by (simp add: executeBatch_def firstChecks_def threeJobs0_def jobSettled_def
        retryPolicyOf_plain threeJobs_fields run_denied
        setTask_def pushResult_def settle_def enter_def resolveOutputPath_def
        finallyRelease_wake[where w = 2 and q = "[]"]
        textJob_def truthyStr_def posix_def digits Let_def)

lemma threeJobs_run7:
  "executeBatch (posix ''/home/u'') threeJobs noOptions
     [PathChecked 0 noFile, PathChecked 1 noFile, Tick 300,
      JobSettled 1 [failing ''Access denied.''],
      PathChecked 2 noFile, Tick 8700, JobSettled 0 [succeeding]] =
   \<lparr>clock = 9000, sem = \<lparr>permits = 1, queue = []\<rparr>,
     tasks = [Finished, Finished, Running ''out/generated_3.mp4'' 300],
     collected = [failedResult (textJob ''a dog'' None) 1 ''Access denied.'' 300,
        completedResult (textJob ''a cat'' None) 0 video1 9000],
     timedOut = False, allRejected = None, stage = Racing\<rparr>"
  using threeJobs_run4
  by (simp add: executeBatch_def pathChecked_def generateUniqueFilePath_def noFile_def
        jobSettled_def retryPolicyOf_plain threeJobs_fields run_succeeding
        setTask_def pushResult_def settle_def finallyRelease_empty)

lemma threeJobs_run9:
  "executeBatch (posix ''/home/u'') threeJobs noOptions threeJobsRun =
     threeJobsEnd\<lparr>stage := Returned (finalize threeJobs threeJobsEnd)\<rparr>"
proof -
  have "executeBatch (posix ''/home/u'') threeJobs noOptions threeJobsRun =
      foldl (step (posix ''/home/u'') threeJobs noOptions)
        (executeBatch (posix ''/home/u'') threeJobs noOptions
           [PathChecked 0 noFile, PathChecked 1 noFile, Tick 300,
            JobSettled 1 [failing ''Access denied.''],
            PathChecked 2 noFile, Tick 8700, JobSettled 0 [succeeding]])
        [Tick 300, JobSettled 2 [succeeding]]"
    by (simp add: threeJobsRun_def executeBatch_def)
  also have "\<dots> = threeJobsEnd\<lparr>stage := Returned (finalize threeJobs threeJobsEnd)\<rparr>"
    unfolding threeJobs_run7
    by (simp add: jobSettled_def retryPolicyOf_plain threeJobs_fields
          run_succeeding setTask_def pushResult_def settle_def finallyRelease_empty
          threeJobsEnd_def)
  finally show ?thesis .
qed

lemma threeJobsEnd_report:
  "map res_index (results (finalize threeJobs threeJobsEnd)) = [1, 2, 3]"
  "succeeded (finalize threeJobs threeJobsEnd) = 2"
  "failed (finalize threeJobs threeJobsEnd) = 1"
  "cancelled (finalize threeJobs threeJobsEnd) = 0"
  by (simp_all add: finalize_def Let_def threeJobsEnd_def threeJobs_fields
        failedResult_def completedResult_def)

section \<open>Outcomes and paths\<close>

lemma retryLoop_status:
  "retryLoop rp job index t0 attempt now script = Some (r, fin, rest) \<Longrightarrow>
     res_status r = Completed \<or> res_status r = Failed"
proof (induction script arbitrary: attempt now)
  case Nil
  then show ?case by (auto simp: exceededResult_def split: if_splits)
next
  case (Cons a script)
  show ?case
  proof (cases "attempt \<le> maxRetries rp")
    case False
    with Cons.prems show ?thesis by (auto simp: exceededResult_def)
  next
    case le: True
    show ?thesis
    proof (cases "attemptBody (att_outcome a)")
      case (Inr result)
      with le Cons.prems show ?thesis by (auto simp add: Let_def completedResult_def)
    next
      case (Inl message)
      show ?thesis
      proof (cases "attempt < maxRetries rp \<and> shouldRetry message (retryPatterns rp)")
        case False
        with le Inl Cons.prems show ?thesis by (auto simp add: Let_def failedResult_def)
      next
        case True
        with le Inl Cons.prems have
          "retryLoop rp job index t0 (attempt + 1)
             (now + att_took a + timerDelay (retryDelay rp) + att_overslept a) script =
           Some (r, fin, rest)"
          by (simp add: Let_def)
        from Cons.IH[OF this] show ?thesis .
      qed
    qed
  qed
qed

lemma executeJobWithRetry_status:
  "executeJobWithRetry rp job i t0 script = Some (r, fin, rest) \<Longrightarrow>
     res_status r = Completed \<or> res_status r = Failed"
  by (auto simp: executeJobWithRetry_def dest: retryLoop_status)





subsection \<open>More worked runs\<close>

lemma stray_run:
  "executeBatch (posix ''/home/u'') strayConfig noOptions [] =
    \<lparr>clock = 0, sem = \<lparr>permits = 2, queue = []\<rparr>,
     tasks = [Rejected
       ''Job 1: absolute output_path must be within output_dir. Use --allow-any-path to override.''],
     collected = [], timedOut = False,
     allRejected = Some
       ''Job 1: absolute output_path must be within output_dir. Use --allow-any-path to override.'',
     stage = Threw
       ''Job 1: absolute output_path must be within output_dir. Use --allow-any-path to override.''\<rparr>"
  by (simp add: executeBatch_def init_defs settings_defs strayConfig_def startsWith_def
        finallyRelease_empty)

lemma stray_resolve:
  "resolveOutputPath (posix ''/home/u'') (jobs strayConfig ! 0) 0 (outputDirOf strayConfig)
     (allowAnyPathOf noOptions) =
   Inl ''Job 1: absolute output_path must be within output_dir. Use --allow-any-path to override.''"
  by (simp add: settings_defs strayConfig_def startsWith_def resolveOutputPath_def posix_def
        digits Let_def)


lemma threeJobs_resolve:
  "i < length (jobs threeJobs) \<Longrightarrow>
     resolveOutputPath (posix ''/home/u'') (jobs threeJobs ! i) i (outputDirOf threeJobs)
       (allowAnyPathOf noOptions) =
     Inr (''out/generated_'' @ digitsOf (i + 1) @ ''.mp4'')"
  by (auto simp: threeJobs_fields resolveOutputPath_def textJob_def truthyStr_def posix_def
        Let_def less_Suc_eq numeral_3_eq_3)

section \<open>The deadline\<close>

subsection \<open>The final code when nothing was recorded\<close>

lemma finalize_empty:
  assumes "collected s = []"
  shows "verdict config (finalize config s)"
proof -
  let ?all = "allCancelled config"
  have idx: "map res_index ?all = map Suc [0..<length (jobs config)]"
    by (simp add: allCancelled_def comp_def)
  have "sorted (map res_index ?all)"
    unfolding idx by (simp add: map_Suc_upt del: upt_Suc)
  then have s: "sort_key res_index ?all = ?all"
    by (rule sort_key_id_if_sorted)
  have st: "filter (\<lambda>r. res_status r = Cancelled) ?all = ?all"
    "filter (\<lambda>r. res_status r = Completed) ?all = []"
    "filter (\<lambda>r. res_status r = Failed) ?all = []"
    by (simp_all add: allCancelled_def cancelledResult_def filter_map comp_def)
  have len: "length ?all = length (jobs config)"
    by (simp add: allCancelled_def)
  have u: "unsorted config s = ?all"
    using assms by (simp add: unsorted_def allCancelled_def)
  show ?thesis
    unfolding verdict_def
    using finalize_counts[of config s] s st len
    by (simp add: results_finalize u)
qed

lemma enter_stage: "stage (fst (enter path config options i s)) = stage s"
  by (simp add: enter_def Let_def setTask_def pushResult_def rejectJob_def split: sum.splits)

lemma finallyRelease_stage:
  "length (queue (sem s)) = n \<Longrightarrow> stage (finallyRelease path config options s) = stage s"
proof (induction n arbitrary: s)
  case 0
  then show ?case by (simp add: finallyRelease_empty)
next
  case (Suc n)
  then obtain w q where q: "queue (sem s) = w # q" and lq: "length q = n"
    by (cases "queue (sem s)") auto
  let ?s1 = "s\<lparr>sem := (sem s)\<lparr>queue := q\<rparr>\<rparr>"
  obtain s' flag where e: "enter path config options w ?s1 = (s', flag)"
    by (cases "enter path config options w ?s1")
  have st: "stage s' = stage s"
    using enter_stage[of path config options w ?s1] e by simp
  show ?case
  proof (cases flag)
    case True
    with e st show ?thesis by (simp add: finallyRelease_wake[OF q])
  next
    case False
    have "sem s' = sem (fst (enter path config options w ?s1))" using e by simp
    then have "length (queue (sem s')) = n" using lq by (simp add: enter_sem)
    from Suc.IH[OF this] st False e show ?thesis by (simp add: finallyRelease_wake[OF q])
  qed
qed

lemma returned_stays:
  assumes "stage s = Returned b"
  shows "stage (step path config options s e) = Returned b"
proof (cases e)
  case (Tick d)
  with assms show ?thesis by simp
next
  case (PathChecked i fileExists)
  with assms show ?thesis
    by (simp add: pathChecked_def setTask_def split: Task.splits option.splits)
next
  case (JobSettled i script)
  have "stage (settle config (finallyRelease path config options s')) = Returned b"
    if "stage s' = Returned b" for s'
    using that finallyRelease_stage[OF refl, of path config options s']
    by (simp add: settle_def)
  with assms JobSettled show ?thesis
    by (simp add: jobSettled_def setTask_def pushResult_def split: Task.splits option.splits)
next
  case Timeout
  with assms show ?thesis by (simp add: timerFires_def)
next
  case GraceOver
  with assms show ?thesis by (simp add: graceOver_def)
qed

lemma slow_settles_late:
  assumes m: "0 \<le> maxRetries rp" and slow: "list_all (\<lambda>a. D \<le> att_took a) script"
    and run: "executeJobWithRetry rp job i t0 script = Some (r, fin, rest)"
  shows "D \<le> fin"
proof -
  from run have "retryLoop rp job i t0 0 t0 script = Some (r, fin, rest)"
    by (simp add: executeJobWithRetry_def)
  from retryLoop_clock[OF this] m obtain used where
    u: "script = used @ rest" "used \<noteq> []"
      "fin = t0 + sum_list (map att_took used) +
         sum_list (map (\<lambda>a. timerDelay (retryDelay rp) + att_overslept a) (butlast used))"
    by auto
  from u(2) obtain a more where used: "used = a # more" by (cases used) auto
  with slow u(1) have "D \<le> att_took a" by simp
  with u(3) used show ?thesis by simp
qed

lemma lapsing_step:
  assumes l: "lapsing config s" and ok: "onTime config D s e"
    and m: "0 \<le> maxRetries (retryPolicyOf config)"
    and gap: "deadlineOf config + 5000 < D"
  shows "lapsing config (step path config options s e)
         \<or> (\<exists>b. stage (step path config options s e) = Returned b \<and> verdict config b)"
proof (cases e)
  case (Tick d)
  with l ok show ?thesis
    by (auto simp: lapsing_def onTime_def split: Stage.splits)
next
  case (PathChecked i fileExists)
  have "lapsing config (pathChecked path i fileExists s)"
    using l by (auto simp: pathChecked_def setTask_def lapsing_def split: Task.splits option.splits Stage.splits)
  with PathChecked show ?thesis by simp
next
  case (JobSettled i script)
  from l have early: "clock s \<le> deadlineOf config + 5000"
    by (auto simp: lapsing_def split: Stage.splits)
  have "jobSettled path config options i script s = s"
  proof -
    have "fin \<noteq> clock s"
      if "executeJobWithRetry (retryPolicyOf config) (jobs config ! i) i t0 script =
          Some (r, fin, rest)" for t0 r fin rest
    proof -
      from ok JobSettled have "list_all (\<lambda>a. D \<le> att_took a) script"
        by (simp add: onTime_def)
      from slow_settles_late[OF m this that] have "D \<le> fin" .
      with early gap show ?thesis by simp
    qed
    then show ?thesis
      by (auto simp: jobSettled_def split: Task.splits option.splits)
  qed
  with l JobSettled show ?thesis by simp
next
  case Timeout
  have "lapsing config (timerFires config s)"
    using l by (auto simp: timerFires_def lapsing_def timerDelay_def split: Stage.splits)
  with Timeout show ?thesis by simp
next
  case GraceOver
  show ?thesis
  proof (cases "\<exists>wake. stage s = Grace wake \<and> wake \<le> clock s")
    case True
    then have "stage (graceOver config s) = Returned (finalize config s)"
      by (auto simp: graceOver_def)
    moreover from l have "verdict config (finalize config s)"
      by (intro finalize_empty) (simp add: lapsing_def)
    ultimately show ?thesis using GraceOver by simp
  next
    case False
    then have "graceOver config s = s"
      by (auto simp: graceOver_def split: Stage.splits)
    with l GraceOver show ?thesis by simp
  qed
qed

lemma lapsing_steps:
  assumes m: "0 \<le> maxRetries (retryPolicyOf config)"
    and gap: "deadlineOf config + 5000 < D"
  shows "lapsing config s \<or> (\<exists>b. stage s = Returned b \<and> verdict config b) \<Longrightarrow>
     timely path config options D s events \<Longrightarrow>
     lapsing config (foldl (step path config options) s events)
     \<or> (\<exists>b. stage (foldl (step path config options) s events) = Returned b \<and> verdict config b)"
proof (induction events arbitrary: s)
  case Nil
  then show ?case by simp
next
  case (Cons e events)
  from Cons.prems(2) have ok: "onTime config D s e"
    and rest: "timely path config options D (step path config options s e) events"
    by simp_all
  have "lapsing config (step path config options s e)
        \<or> (\<exists>b. stage (step path config options s e) = Returned b \<and> verdict config b)"
    using Cons.prems(1)
  proof
    assume "lapsing config s"
    from lapsing_step[OF this ok m gap] show ?thesis .
  next
    assume "\<exists>b. stage s = Returned b \<and> verdict config b"
    then show ?thesis by (auto dest: returned_stays)
  qed
  from Cons.IH[OF this rest] show ?case by simp
qed

subsection \<open>The start, and the punctual run\<close>

lemma calm_launch: "calm s \<Longrightarrow> calm (launch s i)"
  by (simp add: launch_def acquire_def setTask_def calm_def split: prod.splits if_splits)

lemma calm_afterAcquire:
  assumes c: "calm s" and i: "i < length (jobs config)"
    and ok: "\<forall>e. \<not> pathFails path config options e"
  shows "calm (afterAcquire path config options s i)"
proof -
  from i ok obtain p where
    "resolveOutputPath path (jobs config ! i) i (outputDirOf config) (allowAnyPathOf options) = Inr p"
    unfolding pathFails_def
    by (cases "resolveOutputPath path (jobs config ! i) i (outputDirOf config)
                 (allowAnyPathOf options)") auto
  moreover from c have "\<not> timedOut s" by (simp add: calm_def)
  ultimately have "enter path config options i s = (setTask i (Resolving p) s, True)"
    by (simp add: enter_def)
  with c show ?thesis by (simp add: afterAcquire_def calm_def setTask_def)
qed

lemma calm_foldl:
  assumes "\<And>s i. calm s \<Longrightarrow> i < n \<Longrightarrow> calm (f s i)"
  shows "calm s \<Longrightarrow> \<forall>i \<in> set xs. i < n \<Longrightarrow> calm (foldl f s xs)"
  by (induction xs arbitrary: s) (simp_all add: assms)

lemma calm_lapsing: "calm s \<Longrightarrow> lapsing config s"
  by (simp add: calm_def lapsing_def)

lemma init_calm:
  assumes ok: "\<forall>e. \<not> pathFails path config options e"
  shows "calm (init path config options)
     \<or> (\<exists>b. stage (init path config options) = Returned b \<and> verdict config b)"
proof -
  let ?n = "length (jobs config)"
  let ?s0 = "\<lparr>clock = 0, sem = newSemaphore (maxConcurrentOf config),
                tasks = replicate ?n Waiting, collected = [], timedOut = False,
                allRejected = None, stage = Racing\<rparr>"
  let ?s1 = "foldl launch ?s0 [0..<?n]"
  let ?s2 = "foldl (afterAcquire path config options) ?s1 [0..<?n]"
  have "calm ?s0" by (simp add: calm_def)
  then have "calm ?s1"
    by (rule calm_foldl[where n = ?n, rotated]) (simp_all add: calm_launch)
  then have c2: "calm ?s2"
    by (rule calm_foldl[where n = ?n, rotated]) (simp_all add: calm_afterAcquire ok)
  have i: "init path config options = settle config ?s2"
    by (simp add: init_def Let_def)
  show ?thesis
  proof (cases "list_all (\<lambda>t. t = Finished) (tasks ?s2)")
    case True
    with c2 have "stage (settle config ?s2) = Returned (finalize config ?s2)"
      by (simp add: settle_def calm_def)
    moreover from c2 have "verdict config (finalize config ?s2)"
      by (intro finalize_empty) (simp add: calm_def)
    ultimately show ?thesis unfolding i by blast
  next
    case False
    with c2 have "settle config ?s2 = ?s2" by (simp add: settle_def calm_def)
    with c2 show ?thesis unfolding i by simp
  qed
qed

lemma timerDelay_5000: "timerDelay 5000 = 5000"
  by (simp add: timerDelay_def)

lemma punctual_run:
  assumes ok: "\<forall>e. \<not> pathFails path config options e"
  shows "timely path config options D (init path config options)
           [Tick (deadlineOf config), Timeout, Tick 5000, GraceOver]"
    and "\<exists>b. stage (executeBatch path config options
                  [Tick (deadlineOf config), Timeout, Tick 5000, GraceOver]) = Returned b
            \<and> verdict config b"
proof -
  let ?s = "init path config options"
  from init_calm[OF ok] consider (calm) "calm ?s"
    | (returned) b where "stage ?s = Returned b" "verdict config b" by blast
  then have "timely path config options D ?s
           [Tick (deadlineOf config), Timeout, Tick 5000, GraceOver]
    \<and> (\<exists>b. stage (foldl (step path config options) ?s
                  [Tick (deadlineOf config), Timeout, Tick 5000, GraceOver]) = Returned b
            \<and> verdict config b)"
  proof cases
    case calm
    from calm show ?thesis
      by (simp add: calm_def onTime_def timerFires_def graceOver_def timerDelay_5000
            finalize_empty)
  next
    case returned
    then show ?thesis
      by (simp add: onTime_def returned_stays del: step.simps)
  qed
  then show "timely path config options D (init path config options)
           [Tick (deadlineOf config), Timeout, Tick 5000, GraceOver]"
    and "\<exists>b. stage (executeBatch path config options
                  [Tick (deadlineOf config), Timeout, Tick 5000, GraceOver]) = Returned b
            \<and> verdict config b"
    by (simp_all add: executeBatch_def)
qed

lemma slow_jobs_all_cancelled:
  assumes ok: "\<forall>e. \<not> pathFails path config options e"
    and m: "0 \<le> maxRetries (retryPolicyOf config)"
    and gap: "deadlineOf config + 5000 < D"
    and t: "timely path config options D (init path config options) events"
    and r: "stage (executeBatch path config options events) = Returned b"
  shows "verdict config b"
proof -
  from init_calm[OF ok] have
    "lapsing config (init path config options)
     \<or> (\<exists>b. stage (init path config options) = Returned b \<and> verdict config b)"
    by (auto dest: calm_lapsing)
  from lapsing_steps[OF m gap this t] r show ?thesis
    by (auto simp: executeBatch_def lapsing_def)
qed

lemma grace_begins:
  assumes "stage s = Racing" "stage (step path config options s e) = Grace wake"
  shows "e = Timeout \<and> \<not> timedOut s \<and> deadlineOf config \<le> clock s \<and> wake = clock s + 5000"
proof (cases e)
  case (Tick d)
  with assms show ?thesis by simp
next
  case (PathChecked i fileExists)
  with assms show ?thesis
    by (simp add: pathChecked_def setTask_def split: Task.splits option.splits if_splits)
next
  case (JobSettled i script)
  have "stage (settle config (finallyRelease path config options s')) \<noteq> Grace wake"
    if "stage s' = Racing" for s'
    using that finallyRelease_stage[OF refl, of path config options s']
    by (simp add: settle_def split: option.splits)
  with assms JobSettled show ?thesis
    by (auto simp: jobSettled_def setTask_def pushResult_def
          split: Task.splits option.splits if_splits)
next
  case Timeout
  with assms show ?thesis
    by (simp add: timerFires_def timerDelay_5000 split: if_splits)
next
  case GraceOver
  with assms show ?thesis by (simp add: graceOver_def)
qed


subsection \<open>The hasty run\<close>

lemma hasty_fields:
  "retry_policy hastyConfig = None"
  "jobs hastyConfig = [textJob ''a cat'' None, textJob ''a dog'' None, textJob ''a bird'' None]"
  "outputDirOf hastyConfig = ''out''"
  "maxConcurrentOf hastyConfig = 2"
  "deadlineOf hastyConfig = 100"
  by (simp_all add: hastyConfig_def threeJobs_def settings_defs deadlineOf_def timerDelay_def)

lemma hasty_init: "init (posix ''/home/u'') hastyConfig noOptions = threeJobs0"
  by (simp add: init_defs settings_defs hastyConfig_def threeJobs_def threeJobs0_def)

lemma hasty_run3:
  "executeBatch (posix ''/home/u'') hastyConfig noOptions hastyDue =
    \<lparr>clock = 100, sem = \<lparr>permits = 0, queue = [2]\<rparr>,
     tasks = [Running ''out/generated_1.mp4'' 0, Running ''out/generated_2.mp4'' 0, Waiting],
     collected = [], timedOut = False, allRejected = None, stage = Racing\<rparr>"
  by (simp add: executeBatch_def hasty_init threeJobs0_def pathChecked_def
        generateUniqueFilePath_def noFile_def setTask_def hastyDue_def)

lemma hasty_run4:
  "executeBatch (posix ''/home/u'') hastyConfig noOptions (hastyDue @ [Timeout]) =
    \<lparr>clock = 100, sem = \<lparr>permits = 0, queue = [2]\<rparr>,
     tasks = [Running ''out/generated_1.mp4'' 0, Running ''out/generated_2.mp4'' 0, Waiting],
     collected = [], timedOut = True, allRejected = None, stage = Grace 5100\<rparr>"
proof -
  have "executeBatch (posix ''/home/u'') hastyConfig noOptions (hastyDue @ [Timeout]) =
      timerFires hastyConfig (executeBatch (posix ''/home/u'') hastyConfig noOptions hastyDue)"
    by (simp add: executeBatch_def)
  then show ?thesis
    unfolding hasty_run3
    by (simp add: timerFires_def hasty_fields timerDelay_5000)
qed

lemma hasty_run5:
  "executeBatch (posix ''/home/u'') hastyConfig noOptions hastySleep = hastyEnd"
proof -
  have "executeBatch (posix ''/home/u'') hastyConfig noOptions hastySleep =
      step (posix ''/home/u'') hastyConfig noOptions
        (executeBatch (posix ''/home/u'') hastyConfig noOptions (hastyDue @ [Timeout]))
        (Tick 5000)"
    by (simp add: executeBatch_def hastySleep_def hastyDue_def)
  then show ?thesis
    unfolding hasty_run4 by (simp add: hastyEnd_def)
qed

lemma hasty_run:
  "executeBatch (posix ''/home/u'') hastyConfig noOptions hastyRun =
     hastyEnd\<lparr>stage := Returned (finalize hastyConfig hastyEnd)\<rparr>"
  "executeBatch (posix ''/home/u'') hastyConfig noOptions (hastySleep @ [GraceOver]) =
     hastyEnd\<lparr>stage := Returned (finalize hastyConfig hastyEnd)\<rparr>"
proof -
  have "executeBatch (posix ''/home/u'') hastyConfig noOptions (hastySleep @ [GraceOver]) =
      graceOver hastyConfig (executeBatch (posix ''/home/u'') hastyConfig noOptions hastySleep)"
    by (simp add: executeBatch_def)
  then show "executeBatch (posix ''/home/u'') hastyConfig noOptions (hastySleep @ [GraceOver]) =
     hastyEnd\<lparr>stage := Returned (finalize hastyConfig hastyEnd)\<rparr>"
    unfolding hasty_run5 by (simp add: graceOver_def hastyEnd_def)
  moreover have "hastyRun = hastySleep @ [GraceOver]"
    by (simp add: hastyRun_def hastySleep_def)
  ultimately show "executeBatch (posix ''/home/u'') hastyConfig noOptions hastyRun =
     hastyEnd\<lparr>stage := Returned (finalize hastyConfig hastyEnd)\<rparr>"
    by simp
qed

lemma hasty_timely:
  "timely (posix ''/home/u'') hastyConfig noOptions 10000
     (init (posix ''/home/u'') hastyConfig noOptions) hastyRun"
  by (simp add: hasty_init threeJobs0_def hastyRun_def onTime_def hasty_fields
        pathChecked_def generateUniqueFilePath_def noFile_def setTask_def
        timerFires_def timerDelay_5000)

lemma hasty_resolve:
  "i < length (jobs hastyConfig) \<Longrightarrow>
     resolveOutputPath (posix ''/home/u'') (jobs hastyConfig ! i) i (outputDirOf hastyConfig)
       (allowAnyPathOf noOptions) =
     Inr (''out/generated_'' @ digitsOf (i + 1) @ ''.mp4'')"
  by (auto simp: hasty_fields threeJobs_fields(4) resolveOutputPath_def textJob_def truthyStr_def
        posix_def Let_def less_Suc_eq numeral_3_eq_3)

lemma hasty_paths: "\<not> pathFails (posix ''/home/u'') hastyConfig noOptions e"
  by (auto simp: pathFails_def hasty_resolve)

lemma hasty_retries: "maxRetries (retryPolicyOf hastyConfig) = 2"
  by (simp add: retryPolicyOf_plain hasty_fields rp2_fields)

lemma hasty_report:
  "results (finalize hastyConfig hastyEnd) =
     [cancelledResult (textJob ''a cat'' None) 0 ''Batch timed out or cancelled'',
      cancelledResult (textJob ''a dog'' None) 1 ''Batch timed out or cancelled'',
      cancelledResult (textJob ''a bird'' None) 2 ''Batch timed out or cancelled'']"
  "cancelled (finalize hastyConfig hastyEnd) = 3"
  "succeeded (finalize hastyConfig hastyEnd) = 0"
  "failed (finalize hastyConfig hastyEnd) = 0"
  "total (finalize hastyConfig hastyEnd) = 3"
proof -
  have "verdict hastyConfig (finalize hastyConfig hastyEnd)"
    by (rule finalize_empty) (simp add: hastyEnd_def)
  then show
    "results (finalize hastyConfig hastyEnd) =
     [cancelledResult (textJob ''a cat'' None) 0 ''Batch timed out or cancelled'',
      cancelledResult (textJob ''a dog'' None) 1 ''Batch timed out or cancelled'',
      cancelledResult (textJob ''a bird'' None) 2 ''Batch timed out or cancelled'']"
    "cancelled (finalize hastyConfig hastyEnd) = 3"
    "succeeded (finalize hastyConfig hastyEnd) = 0"
    "failed (finalize hastyConfig hastyEnd) = 0"
    "total (finalize hastyConfig hastyEnd) = 3"
    by (simp_all add: verdict_def allCancelled_def hasty_fields upt_conv_Cons cancelledResult_def)
qed

lemma hasty_reason:
  "res_error (results (finalize hastyConfig hastyEnd) ! 0) = Some ''Batch timed out or cancelled''"
  "res_status (results (finalize hastyConfig hastyEnd) ! 0) = Cancelled"
  "res_output_path (results (finalize hastyConfig hastyEnd) ! 0) = None"
  "res_status (results (finalize hastyConfig hastyEnd) ! 2) = Cancelled"
  "res_output_path (results (finalize hastyConfig hastyEnd) ! 2) = None"
  by (simp_all add: hasty_report cancelledResult_def)

subsection \<open>An outcome recorded during the grace sleep\<close>

lemma late_run:
  "executeBatch (posix ''/home/u'') hastyConfig noOptions lateSleep = lateEnd"
proof -
  have "executeBatch (posix ''/home/u'') hastyConfig noOptions lateSleep =
      foldl (step (posix ''/home/u'') hastyConfig noOptions)
        (executeBatch (posix ''/home/u'') hastyConfig noOptions (hastyDue @ [Timeout]))
        [Tick 200, JobSettled 1 [failing ''Access denied.''], Tick 4800]"
    by (simp add: executeBatch_def lateSleep_def hastyDue_def)
  also have "\<dots> = lateEnd"
    unfolding hasty_run4
    by (simp add: jobSettled_def retryPolicyOf_plain hasty_fields run_denied
          setTask_def pushResult_def settle_def enter_def
          finallyRelease_wake[where w = 2 and q = "[]"] finallyRelease_empty
          lateEnd_def Let_def)
  finally show ?thesis .
qed

lemma late_fields:
  "stage lateEnd = Grace 5100" "clock lateEnd = 5100"
  "collected lateEnd =
     [failedResult (textJob ''a dog'' None) 1 ''Access denied.'' 300,
      cancelledResult (textJob ''a bird'' None) 2 ''Batch timed out before job started'']"
  "res_index (failedResult (textJob ''a dog'' None) 1 ''Access denied.'' 300) = 2"
  "res_index (cancelledResult (textJob ''a bird'' None) 2 ''Batch timed out before job started'') = 3"
  by (simp_all add: lateEnd_def failedResult_def cancelledResult_def)


section \<open>The claims about executeBatch\<close>

subsection \<open>C1: the report\<close>

text \<open>
  C1. Whenever \<open>executeBatch\<close> returns, after any sequence of events, its value holds
  exactly one outcome per job, the indices are \<open>1..N\<close> in ascending order, and the three
  counts are the numbers of outcomes of each status and add up to \<open>total = N\<close>. (The
  value is the one at the moment of the return.)
\<close>

theorem executeBatch_report:
  assumes "stage (executeBatch path config options events) = Returned b"
  shows "length (results b) = length (jobs config)
    \<and> map res_index (results b) = [1..<length (jobs config) + 1]
    \<and> total b = length (jobs config)
    \<and> succeeded b + failed b + cancelled b = total b
    \<and> succeeded b = length (filter (\<lambda>r. res_status r = Completed) (results b))
    \<and> failed b = length (filter (\<lambda>r. res_status r = Failed) (results b))
    \<and> cancelled b = length (filter (\<lambda>r. res_status r = Cancelled) (results b))"
proof -
  from returned_from[OF assms] obtain s0 where
    wf: "wellFormed config s0" and b: "b = finalize config s0"
    by blast
  from finalize_length[OF wf] finalize_indices[OF wf] finalize_counts[of config s0]
  show ?thesis unfolding b by simp
qed

theorem executeBatch_report_witness:
  "stage (executeBatch (posix ''/home/u'') threeJobs noOptions threeJobsRun) =
     Returned (finalize threeJobs threeJobsEnd)
   \<and> length (results (finalize threeJobs threeJobsEnd)) = 3
   \<and> map res_index (results (finalize threeJobs threeJobsEnd)) = [1, 2, 3]
   \<and> succeeded (finalize threeJobs threeJobsEnd) = 2
   \<and> failed (finalize threeJobs threeJobsEnd) = 1
   \<and> cancelled (finalize threeJobs threeJobsEnd) = 0
   \<and> total (finalize threeJobs threeJobsEnd) = 3"
proof -
  have h: "stage (executeBatch (posix ''/home/u'') threeJobs noOptions threeJobsRun) =
      Returned (finalize threeJobs threeJobsEnd)"
    by (simp add: threeJobs_run9)
  from executeBatch_report[OF h] h threeJobsEnd_report show ?thesis
    by (simp add: threeJobs_fields)
qed

subsection \<open>C2: the concurrency cap\<close>

text \<open>
  C2. The semaphore is created with \<open>maxConcurrent\<close> permits; \<open>acquire\<close> takes a permit
  when one is free and otherwise enqueues the caller; \<open>release\<close> resumes the first
  waiter, which inherits the permit, and returns the permit to the pool only when nobody
  waits. In every state of every execution the free permits and the jobs admitted but
  not released add up to the cap, so that, the cap being non-negative (as every configured
  cap 1..5 is), at most that many jobs are admitted and at most that many are inside
  \<open>executeJobWithRetry\<close>, where each has at most one \<open>generateVideo\<close> or \<open>remixVideo\<close>
  call in flight.
\<close>

theorem executeBatch_concurrency_cap:
  "(0 \<le> maxConcurrentOf config \<longrightarrow>
      int (inFlight (executeBatch path config options events)) \<le> maxConcurrentOf config
      \<and> int (admitted (executeBatch path config options events)) \<le> maxConcurrentOf config
      \<and> 0 \<le> permits (sem (executeBatch path config options events)))
   \<and> permits (sem (executeBatch path config options events))
       + int (admitted (executeBatch path config options events)) = maxConcurrentOf config
   \<and> (max_concurrent config = Some k \<and> 1 \<le> k \<longrightarrow> maxConcurrentOf config = k)
   \<and> permits (newSemaphore n) = n \<and> queue (newSemaphore n) = []
   \<and> (permits sm \<le> 0 \<longrightarrow> acquire w sm = (False, sm\<lparr>queue := queue sm @ [w]\<rparr>))
   \<and> (0 < permits sm \<longrightarrow> acquire w sm = (True, sm\<lparr>permits := permits sm - 1\<rparr>))
   \<and> (queue sm = w # q \<longrightarrow> release sm = (Some w, sm\<lparr>queue := q\<rparr>))
   \<and> (queue sm = [] \<longrightarrow> release sm = (None, sm\<lparr>permits := permits sm + 1\<rparr>))"
proof -
  let ?s = "executeBatch path config options events"
  have acc: "accounted config (maxConcurrentOf config) ?s"
    by (rule consistentD(2)[OF consistent_executeBatch])
  then have sum: "permits (sem ?s) + int (admitted ?s) = maxConcurrentOf config"
    and low: "min 0 (maxConcurrentOf config) \<le> permits (sem ?s)"
    by (simp_all add: accounted_def)
  have fl: "int (inFlight ?s) \<le> int (admitted ?s)"
    using inFlight_le_admitted[of ?s] by simp
  have "0 \<le> maxConcurrentOf config \<longrightarrow>
      int (inFlight ?s) \<le> maxConcurrentOf config
      \<and> int (admitted ?s) \<le> maxConcurrentOf config \<and> 0 \<le> permits (sem ?s)"
    using sum low fl by auto
  moreover have "max_concurrent config = Some k \<and> 1 \<le> k \<longrightarrow> maxConcurrentOf config = k"
    by (auto simp: maxConcurrentOf_def jsOr_def)
  ultimately show ?thesis
    using sum by (simp add: newSemaphore_def acquire_def release_def)
qed

theorem executeBatch_concurrency_cap_witness:
  "maxConcurrentOf threeJobs = 2
   \<and> inFlight (executeBatch (posix ''/home/u'') threeJobs noOptions firstChecks) = 2
   \<and> int (admitted (executeBatch (posix ''/home/u'') threeJobs noOptions firstChecks)) \<le> 2
   \<and> permits (sem (executeBatch (posix ''/home/u'') threeJobs noOptions firstChecks)) = 0
   \<and> queue (sem (executeBatch (posix ''/home/u'') threeJobs noOptions firstChecks)) = [2]
   \<and> acquire 2 \<lparr>permits = 0, queue = []\<rparr> = (False, \<lparr>permits = 0, queue = [2]\<rparr>)
   \<and> release \<lparr>permits = 0, queue = [2]\<rparr> = (Some 2, \<lparr>permits = 0, queue = []\<rparr>)"
proof -
  have k: "0 \<le> maxConcurrentOf threeJobs" "maxConcurrentOf threeJobs = 2"
    by (simp_all add: threeJobs_fields)
  have run: "inFlight (executeBatch (posix ''/home/u'') threeJobs noOptions firstChecks) = 2"
    "permits (sem (executeBatch (posix ''/home/u'') threeJobs noOptions firstChecks)) = 0"
    "queue (sem (executeBatch (posix ''/home/u'') threeJobs noOptions firstChecks)) = [2]"
    by (simp_all add: threeJobs_run2 threeJobs0_def inFlight_def executing_def)
  from executeBatch_concurrency_cap[where config = threeJobs and path = "posix ''/home/u''"
      and options = noOptions and events = firstChecks
      and sm = "\<lparr>permits = 0, queue = []\<rparr>" and w = 2]
    k run
  have "int (admitted (executeBatch (posix ''/home/u'') threeJobs noOptions firstChecks)) \<le> 2"
    and "acquire 2 \<lparr>permits = 0, queue = []\<rparr> = (False, \<lparr>permits = 0, queue = [2]\<rparr>)"
    by simp_all
  moreover
  from executeBatch_concurrency_cap[where sm = "\<lparr>permits = 0, queue = [2]\<rparr>" and w = 2
      and q = "[]"]
  have "release \<lparr>permits = 0, queue = [2]\<rparr> = (Some 2, \<lparr>permits = 0, queue = []\<rparr>)"
    by simp
  ultimately show ?thesis using k run by simp
qed

subsection \<open>C5: which errors stay inside a job\<close>

text \<open>
  C5, as amended. Whatever the calls of a job do (reject, or settle unsuccessfully, an
  I/O error of the download included), \<open>executeJobWithRetry\<close> returns an outcome for
  that job, \<open>completed\<close> or \<open>failed\<close>, and throws nothing. \<open>executeBatch\<close> throws only an
  error that \<open>resolveOutputPath\<close> threw for one of the jobs (an absolute output path
  outside the output directory, without \<open>allowAnyPath\<close>): that call stands outside the
  retry wrapper, the job function is rejected, and the caller rethrows every error of
  the race but its own timeout. When no job has such a path, \<open>executeBatch\<close> never throws,
  and a report it returns holds every job.
\<close>

theorem executeBatch_throws_only_path_errors:
  "(stage (executeBatch path config options events) = Threw e \<longrightarrow>
      (\<exists>i < length (jobs config).
         resolveOutputPath path (jobs config ! i) i (outputDirOf config)
           (allowAnyPathOf options) = Inl e))
   \<and> ((\<forall>i < length (jobs config). \<forall>e'.
          resolveOutputPath path (jobs config ! i) i (outputDirOf config)
            (allowAnyPathOf options) \<noteq> Inl e') \<longrightarrow>
        stage (executeBatch path config options events) \<noteq> Threw e)
   \<and> (executeJobWithRetry rp job i t0 script = Some (r, fin, rest) \<longrightarrow>
        res_index r = i + 1 \<and> (res_status r = Completed \<or> res_status r = Failed))
   \<and> (stage (executeBatch path config options events) = Returned b \<longrightarrow>
        map res_index (results b) = [1..<length (jobs config) + 1])"
proof -
  let ?s = "executeBatch path config options events"
  have t: "traced path config options ?s"
    by (rule consistentD(3)[OF consistent_executeBatch])
  then have thrown: "stage ?s = Threw e \<longrightarrow> pathFails path config options e"
    by (simp add: traced_def)
  have run: "executeJobWithRetry rp job i t0 script = Some (r, fin, rest) \<longrightarrow>
      res_index r = i + 1 \<and> (res_status r = Completed \<or> res_status r = Failed)"
    by (auto dest: res_index_executeJobWithRetry executeJobWithRetry_status)
  have rep: "stage ?s = Returned b \<longrightarrow>
      map res_index (results b) = [1..<length (jobs config) + 1]"
  proof
    assume "stage ?s = Returned b"
    from returned_from[OF this] obtain s0 where
      "wellFormed config s0" "b = finalize config s0" by blast
    then show "map res_index (results b) = [1..<length (jobs config) + 1]"
      by (simp only: finalize_indices)
  qed
  from thrown run rep show ?thesis
    unfolding pathFails_def by blast
qed

theorem executeBatch_throws_only_path_errors_witness:
  "(\<exists>i < length (jobs strayConfig).
      resolveOutputPath (posix ''/home/u'') (jobs strayConfig ! i) i (outputDirOf strayConfig)
        (allowAnyPathOf noOptions) =
      Inl ''Job 1: absolute output_path must be within output_dir. Use --allow-any-path to override.'')
   \<and> stage (executeBatch (posix ''/home/u'') threeJobs noOptions threeJobsRun) \<noteq> Threw ''x''
   \<and> res_index (failedResult (textJob ''a dog'' None) 1 ''Access denied.'' 300) = 1 + 1
   \<and> (res_status (failedResult (textJob ''a dog'' None) 1 ''Access denied.'' 300) = Completed
      \<or> res_status (failedResult (textJob ''a dog'' None) 1 ''Access denied.'' 300) = Failed)
   \<and> map res_index (results (finalize threeJobs threeJobsEnd)) = [1..<length (jobs threeJobs) + 1]"
proof -
  note main = executeBatch_throws_only_path_errors
  have thrown: "stage (executeBatch (posix ''/home/u'') strayConfig noOptions []) =
      Threw ''Job 1: absolute output_path must be within output_dir. Use --allow-any-path to override.''"
    by (simp add: stray_run)
  have fine: "\<forall>i < length (jobs threeJobs). \<forall>e'.
      resolveOutputPath (posix ''/home/u'') (jobs threeJobs ! i) i (outputDirOf threeJobs)
        (allowAnyPathOf noOptions) \<noteq> Inl e'"
    by (simp add: threeJobs_resolve)
  have returned: "stage (executeBatch (posix ''/home/u'') threeJobs noOptions threeJobsRun) =
      Returned (finalize threeJobs threeJobsEnd)"
    by (simp add: threeJobs_run9)
  from main[where path = "posix ''/home/u''" and config = strayConfig and options = noOptions
      and events = "[]"
      and e = "''Job 1: absolute output_path must be within output_dir. Use --allow-any-path to override.''"]
    thrown
  have c1: "\<exists>i < length (jobs strayConfig).
      resolveOutputPath (posix ''/home/u'') (jobs strayConfig ! i) i (outputDirOf strayConfig)
        (allowAnyPathOf noOptions) =
      Inl ''Job 1: absolute output_path must be within output_dir. Use --allow-any-path to override.''"
    by blast
  from main[where path = "posix ''/home/u''" and config = threeJobs and options = noOptions
      and events = threeJobsRun and e = "''x''" and b = "finalize threeJobs threeJobsEnd"
      and rp = rp2 and job = "textJob ''a dog'' None" and i = 1 and ?t0.0 = 0
      and script = "[failing ''Access denied.'']"
      and r = "failedResult (textJob ''a dog'' None) 1 ''Access denied.'' 300"
      and fin = 300 and rest = "[]"]
    fine returned run_denied[of "textJob ''a dog'' None" 1 0]
  have c2: "stage (executeBatch (posix ''/home/u'') threeJobs noOptions threeJobsRun) \<noteq> Threw ''x''"
    and c3: "res_index (failedResult (textJob ''a dog'' None) 1 ''Access denied.'' 300) = 1 + 1
      \<and> (res_status (failedResult (textJob ''a dog'' None) 1 ''Access denied.'' 300) = Completed
        \<or> res_status (failedResult (textJob ''a dog'' None) 1 ''Access denied.'' 300) = Failed)"
    and c4: "map res_index (results (finalize threeJobs threeJobsEnd)) =
      [1..<length (jobs threeJobs) + 1]"
    by simp_all
  from c1 c2 c3 c4 show ?thesis by blast
qed

text \<open>
  C5 as stated fails: one job whose absolute output path lies outside the output
  directory makes \<open>executeBatch\<close> throw, with no report at all.
\<close>

theorem executeBatch_throws_counterexample:
  "stage (executeBatch (posix ''/home/u'') strayConfig noOptions []) =
     Threw ''Job 1: absolute output_path must be within output_dir. Use --allow-any-path to override.''"
  by (simp add: stray_run)

subsection \<open>C6: when and against what an output path is made unique\<close>





subsection \<open>C7: the deadline and the grace window\<close>

text \<open>
  C7, as amended. The grace sleep begins only when the timer of the race fires, not
  before the deadline, and lasts 5000 ms. When it is over, \<open>executeBatch\<close> returns the
  report made of the outcomes recorded until then: an index that has a recorded outcome
  keeps it, and each other index gets a \<open>cancelled\<close> outcome whose reason is
  \<open>Batch timed out or cancelled\<close>, with a capital letter. When no output path is refused,
  the run in which both timers fire when due returns; and whenever the timers fire no
  later than due and every attempt of a job takes at least \<open>D\<close> ms, for a \<open>D\<close> beyond the
  deadline plus the grace window (as 10 s is for a timeout of 100 ms) and
  \<open>max_retries\<close> not negative, a report that is returned holds all \<open>N\<close> outcomes
  \<open>cancelled\<close> with that reason.
\<close>

theorem executeBatch_deadline:
  "(stage (executeBatch path config options before) = Racing \<longrightarrow>
      stage (executeBatch path config options (before @ [e])) = Grace wake \<longrightarrow>
      e = Timeout
      \<and> deadlineOf config \<le> clock (executeBatch path config options before)
      \<and> wake = clock (executeBatch path config options before) + 5000)
   \<and> (stage (executeBatch path config options sleep) = Grace wake' \<longrightarrow>
      wake' \<le> clock (executeBatch path config options sleep) \<longrightarrow>
      stage (executeBatch path config options (sleep @ [GraceOver])) =
        Returned (finalize config (executeBatch path config options sleep))
      \<and> (i < length (jobs config) \<longrightarrow>
           (r \<in> set (collected (executeBatch path config options sleep)) \<longrightarrow>
            res_index r = i + 1 \<longrightarrow>
              results (finalize config (executeBatch path config options sleep)) ! i = r)
           \<and> ((\<forall>r \<in> set (collected (executeBatch path config options sleep)).
                  res_index r \<noteq> i + 1) \<longrightarrow>
              results (finalize config (executeBatch path config options sleep)) ! i =
                cancelledResult (jobs config ! i) i ''Batch timed out or cancelled'')))
   \<and> ((\<forall>i < length (jobs config). \<forall>e'.
          resolveOutputPath path (jobs config ! i) i (outputDirOf config)
            (allowAnyPathOf options) \<noteq> Inl e') \<longrightarrow>
       (\<exists>b'. stage (executeBatch path config options
                 [Tick (deadlineOf config), Timeout, Tick 5000, GraceOver]) = Returned b')
       \<and> timely path config options D (init path config options)
            [Tick (deadlineOf config), Timeout, Tick 5000, GraceOver]
       \<and> (0 \<le> maxRetries (retryPolicyOf config) \<longrightarrow>
          deadlineOf config + 5000 < D \<longrightarrow>
          timely path config options D (init path config options) events \<longrightarrow>
          stage (executeBatch path config options events) = Returned b \<longrightarrow>
            results b =
              map (\<lambda>i. cancelledResult (jobs config ! i) i ''Batch timed out or cancelled'')
                [0..<length (jobs config)]
            \<and> cancelled b = length (jobs config) \<and> succeeded b = 0 \<and> failed b = 0
            \<and> total b = length (jobs config)))"
proof (intro conjI impI)
  assume "stage (executeBatch path config options before) = Racing"
    and "stage (executeBatch path config options (before @ [e])) = Grace wake"
  then have g: "e = Timeout \<and> \<not> timedOut (executeBatch path config options before)
      \<and> deadlineOf config \<le> clock (executeBatch path config options before)
      \<and> wake = clock (executeBatch path config options before) + 5000"
    by (intro grace_begins[where path = path and options = options])
       (simp_all add: executeBatch_def)
  from g show "e = Timeout" by simp
  from g show "deadlineOf config \<le> clock (executeBatch path config options before)" by simp
  from g show "wake = clock (executeBatch path config options before) + 5000" by simp
next
  assume "stage (executeBatch path config options sleep) = Grace wake'"
    and "wake' \<le> clock (executeBatch path config options sleep)"
  then show "stage (executeBatch path config options (sleep @ [GraceOver])) =
        Returned (finalize config (executeBatch path config options sleep))"
    by (simp add: executeBatch_def graceOver_def)
next
  let ?s = "executeBatch path config options sleep"
  have wf: "wellFormed config ?s"
    by (rule consistentD(1)[OF consistent_executeBatch])
  assume i: "i < length (jobs config)"
  {
    assume "r \<in> set (collected ?s)" "res_index r = i + 1"
    then show "results (finalize config ?s) ! i = r"
      by (rule finalize_nth(1)[OF wf i])
  }
  {
    assume "\<forall>r \<in> set (collected ?s). res_index r \<noteq> i + 1"
    then show "results (finalize config ?s) ! i =
        cancelledResult (jobs config ! i) i ''Batch timed out or cancelled''"
      by (rule finalize_nth(2)[OF wf i])
  }
next
  assume "\<forall>i < length (jobs config). \<forall>e'.
          resolveOutputPath path (jobs config ! i) i (outputDirOf config)
            (allowAnyPathOf options) \<noteq> Inl e'"
  then have ok: "\<forall>e. \<not> pathFails path config options e"
    by (simp add: pathFails_def)
  from punctual_run(2)[OF ok]
  show "\<exists>b'. stage (executeBatch path config options
                 [Tick (deadlineOf config), Timeout, Tick 5000, GraceOver]) = Returned b'"
    by blast
  from punctual_run(1)[OF ok]
  show "timely path config options D (init path config options)
            [Tick (deadlineOf config), Timeout, Tick 5000, GraceOver]" .
  assume "0 \<le> maxRetries (retryPolicyOf config)" "deadlineOf config + 5000 < D"
    "timely path config options D (init path config options) events"
    "stage (executeBatch path config options events) = Returned b"
  then have v: "verdict config b"
    by (rule slow_jobs_all_cancelled[OF ok])
  from v show "results b =
              map (\<lambda>i. cancelledResult (jobs config ! i) i ''Batch timed out or cancelled'')
                [0..<length (jobs config)]"
    by (simp add: verdict_def allCancelled_def)
  from v show "cancelled b = length (jobs config)" by (simp add: verdict_def)
  from v show "succeeded b = 0" by (simp add: verdict_def)
  from v show "failed b = 0" by (simp add: verdict_def)
  from v show "total b = length (jobs config)" by (simp add: verdict_def)
qed

theorem executeBatch_deadline_witness:
  "stage (executeBatch (posix ''/home/u'') hastyConfig noOptions hastyDue) = Racing
   \<and> stage (executeBatch (posix ''/home/u'') hastyConfig noOptions (hastyDue @ [Timeout])) =
       Grace 5100
   \<and> deadlineOf hastyConfig \<le> clock (executeBatch (posix ''/home/u'') hastyConfig noOptions hastyDue)
   \<and> 5100 = clock (executeBatch (posix ''/home/u'') hastyConfig noOptions hastyDue) + 5000
   \<and> stage (executeBatch (posix ''/home/u'') hastyConfig noOptions lateSleep) = Grace 5100
   \<and> clock (executeBatch (posix ''/home/u'') hastyConfig noOptions lateSleep) = 5100
   \<and> stage (executeBatch (posix ''/home/u'') hastyConfig noOptions (lateSleep @ [GraceOver])) =
       Returned (finalize hastyConfig lateEnd)
   \<and> results (finalize hastyConfig lateEnd) ! 0 =
       cancelledResult (textJob ''a cat'' None) 0 ''Batch timed out or cancelled''
   \<and> results (finalize hastyConfig lateEnd) ! 1 =
       failedResult (textJob ''a dog'' None) 1 ''Access denied.'' 300
   \<and> results (finalize hastyConfig lateEnd) ! 2 =
       cancelledResult (textJob ''a bird'' None) 2 ''Batch timed out before job started''
   \<and> (\<exists>b'. stage (executeBatch (posix ''/home/u'') hastyConfig noOptions
                 [Tick 100, Timeout, Tick 5000, GraceOver]) = Returned b')
   \<and> maxRetries (retryPolicyOf hastyConfig) = 2
   \<and> deadlineOf hastyConfig + 5000 < 10000
   \<and> timely (posix ''/home/u'') hastyConfig noOptions 10000
        (init (posix ''/home/u'') hastyConfig noOptions) hastyRun
   \<and> stage (executeBatch (posix ''/home/u'') hastyConfig noOptions hastyRun) =
       Returned (finalize hastyConfig hastyEnd)
   \<and> results (finalize hastyConfig hastyEnd) =
       [cancelledResult (textJob ''a cat'' None) 0 ''Batch timed out or cancelled'',
        cancelledResult (textJob ''a dog'' None) 1 ''Batch timed out or cancelled'',
        cancelledResult (textJob ''a bird'' None) 2 ''Batch timed out or cancelled'']
   \<and> cancelled (finalize hastyConfig hastyEnd) = 3
   \<and> succeeded (finalize hastyConfig hastyEnd) = 0
   \<and> failed (finalize hastyConfig hastyEnd) = 0"
proof -
  let ?P = "posix ''/home/u''"
  note main = executeBatch_deadline
    [where path = ?P and config = hastyConfig and options = noOptions and D = 10000]
  have paths: "\<forall>i < length (jobs hastyConfig). \<forall>e'.
      resolveOutputPath ?P (jobs hastyConfig ! i) i (outputDirOf hastyConfig)
        (allowAnyPathOf noOptions) \<noteq> Inl e'"
    by (simp add: hasty_resolve)
  have due: "stage (executeBatch ?P hastyConfig noOptions hastyDue) = Racing"
    "stage (executeBatch ?P hastyConfig noOptions (hastyDue @ [Timeout])) = Grace 5100"
    by (simp_all add: hasty_run3 hasty_run4)
  have late: "stage (executeBatch ?P hastyConfig noOptions lateSleep) = Grace 5100"
    "clock (executeBatch ?P hastyConfig noOptions lateSleep) = 5100"
    by (simp_all add: late_run late_fields)
  have ret: "stage (executeBatch ?P hastyConfig noOptions hastyRun) =
      Returned (finalize hastyConfig hastyEnd)"
    by (simp add: hasty_run)
  have gap: "deadlineOf hastyConfig + 5000 < 10000" "0 \<le> maxRetries (retryPolicyOf hastyConfig)"
    by (simp_all add: hasty_fields hasty_retries)
  have jobs3: "(0::nat) < length (jobs hastyConfig)" "(1::nat) < length (jobs hastyConfig)"
    "(2::nat) < length (jobs hastyConfig)"
    by (simp_all add: hasty_fields)
  note racing = main[THEN conjunct1, rule_format]
  note asleep = main[THEN conjunct2, THEN conjunct1, rule_format]
  note slow = main[where events = hastyRun and b = "finalize hastyConfig hastyEnd",
      THEN conjunct2, THEN conjunct2, THEN mp, OF paths]
  from racing[where before = hastyDue and e = Timeout and wake = 5100, OF due]
  have a: "deadlineOf hastyConfig \<le> clock (executeBatch ?P hastyConfig noOptions hastyDue)"
    "5100 = clock (executeBatch ?P hastyConfig noOptions hastyDue) + 5000"
    by blast+
  have awake: "5100 \<le> clock (executeBatch ?P hastyConfig noOptions lateSleep)"
    by (simp add: late(2))
  note synth = asleep[where sleep = lateSleep and wake' = 5100, OF late(1) awake]
  from synth[where i = 0 and r = undefined]
  have b: "stage (executeBatch ?P hastyConfig noOptions (lateSleep @ [GraceOver])) =
       Returned (finalize hastyConfig lateEnd)"
    by (simp add: late_run)
  from synth[where i = 0 and r = undefined, THEN conjunct2, rule_format, OF jobs3(1),
      THEN conjunct2]
  have c0: "results (finalize hastyConfig lateEnd) ! 0 =
       cancelledResult (textJob ''a cat'' None) 0 ''Batch timed out or cancelled''"
    by (simp add: late_run late_fields(1-3) hasty_fields failedResult_def cancelledResult_def)
  from synth[where i = 1
      and r = "failedResult (textJob ''a dog'' None) 1 ''Access denied.'' 300",
      THEN conjunct2, rule_format, OF jobs3(2), THEN conjunct1]
  have c1: "results (finalize hastyConfig lateEnd) ! 1 =
       failedResult (textJob ''a dog'' None) 1 ''Access denied.'' 300"
    by (simp add: late_run late_fields(1-3) failedResult_def cancelledResult_def)
  from synth[where i = 2
      and r = "cancelledResult (textJob ''a bird'' None) 2 ''Batch timed out before job started''",
      THEN conjunct2, rule_format, OF jobs3(3), THEN conjunct1]
  have c2: "results (finalize hastyConfig lateEnd) ! 2 =
       cancelledResult (textJob ''a bird'' None) 2 ''Batch timed out before job started''"
    by (simp add: late_run late_fields(1-3) failedResult_def cancelledResult_def)
  from slow[THEN conjunct1]
  have d: "\<exists>b'. stage (executeBatch ?P hastyConfig noOptions
                 [Tick 100, Timeout, Tick 5000, GraceOver]) = Returned b'"
    by (simp add: hasty_fields)
  from slow[THEN conjunct2, THEN conjunct2, rule_format, OF gap(2) gap(1) hasty_timely ret]
  have e: "cancelled (finalize hastyConfig hastyEnd) = length (jobs hastyConfig)"
    "succeeded (finalize hastyConfig hastyEnd) = 0" "failed (finalize hastyConfig hastyEnd) = 0"
    by blast+
  from due a late b c0 c1 c2 d gap(1) hasty_timely ret e show ?thesis
    by (simp add: hasty_retries hasty_report(1) hasty_fields)
qed

text \<open>
  Against C7 as stated: in the hasty batch (timeout 100 ms, no job settled when the grace
  window ends) every outcome is cancelled, and its reason begins with a capital letter.
\<close>

theorem executeBatch_deadline_reason_counterexample:
  "stage (executeBatch (posix ''/home/u'') hastyConfig noOptions hastyRun) =
     Returned (finalize hastyConfig hastyEnd)
   \<and> res_status (results (finalize hastyConfig hastyEnd) ! 0) = Cancelled
   \<and> res_error (results (finalize hastyConfig hastyEnd) ! 0) =
       Some ''Batch timed out or cancelled''
   \<and> res_error (results (finalize hastyConfig hastyEnd) ! 0) \<noteq>
       Some ''batch timed out or cancelled''"
  by (simp add: hasty_run hasty_reason)


end
